theory Spec2Isabelle
  imports Main "HOL-Library.Sublist"
begin

section \<open>Python values used by the preprocessor\<close>

text \<open>
  The exceptions the preprocessor can raise: an index past the end of a list
  (\<open>IndexError\<close>), a missing dictionary key (\<open>KeyError\<close>) and a string that
  \<open>int()\<close> refuses (\<open>ValueError\<close>). A computation that can raise returns
  \<open>py_error + 'a\<close>, with \<open>Inl\<close> for the exception.
\<close>

datatype py_error = IndexError | KeyError | ValueError

text \<open>A \<open>for\<close> loop whose body can raise: the first exception ends the loop.\<close>

fun for_each :: "('a \<Rightarrow> 's \<Rightarrow> py_error + 's) \<Rightarrow> 'a list \<Rightarrow> 's \<Rightarrow> py_error + 's" where
  "for_each body [] s = Inr s"
| "for_each body (x # xs) s =
     (case body x s of Inl e \<Rightarrow> Inl e | Inr s' \<Rightarrow> for_each body xs s')"

subsection \<open>Lists and strings\<close>

text \<open>\<open>xs[i]\<close> for an index that is never negative.\<close>

definition py_index :: "'a list \<Rightarrow> nat \<Rightarrow> py_error + 'a" where
  "py_index xs i = (if i < length xs then Inr (xs ! i) else Inl IndexError)"

text \<open>\<open>xs[a:b]\<close> for bounds that are never negative: the slice is clipped, never raises.\<close>

definition slice :: "'a list \<Rightarrow> nat \<Rightarrow> nat \<Rightarrow> 'a list" where
  "slice xs a b = take (b - a) (drop a xs)"

text \<open>\<open>s.split(c)\<close> for a separator of one character.\<close>

fun split_chr :: "char \<Rightarrow> string \<Rightarrow> string list" where
  "split_chr c [] = [[]]"
| "split_chr c (x # xs) =
     (if x = c then [] # split_chr c xs
      else (case split_chr c xs of [] \<Rightarrow> [[x]] | p # ps \<Rightarrow> (x # p) # ps))"

text \<open>\<open>data.split("\n\n")\<close>: leftmost occurrences, not overlapping.\<close>

fun split_blank :: "string \<Rightarrow> string list" where
  "split_blank (a # b # xs) =
     (if a = CHR 0x0A \<and> b = CHR 0x0A then [] # split_blank xs
      else (case split_blank (b # xs) of [] \<Rightarrow> [[a]] | p # ps \<Rightarrow> (a # p) # ps))"
| "split_blank xs = [xs]"

text \<open>\<open>pat in s\<close> on strings: \<open>pat\<close> occurs in \<open>s\<close> as a contiguous substring.\<close>

fun contains :: "string \<Rightarrow> string \<Rightarrow> bool" where
  "contains pat [] = (pat = [])"
| "contains pat (c # cs) = (prefix pat (c # cs) \<or> contains pat cs)"

text \<open>
  Whitespace of ASCII strings: \<open>str.strip()\<close> removes the characters for which
  \<open>str.isspace\<close> holds, \<open>int()\<close> only tab, line feed, vertical tab, form feed,
  carriage return and space. Characters beyond ASCII are outside this model.
\<close>

definition is_space :: "char \<Rightarrow> bool" where
  "is_space c = (of_char c \<in> {9, 10, 11, 12, 13, 28, 29, 30, 31, 32 :: nat})"

definition is_int_space :: "char \<Rightarrow> bool" where
  "is_int_space c = (of_char c \<in> {9, 10, 11, 12, 13, 32 :: nat})"

definition strip_with :: "(char \<Rightarrow> bool) \<Rightarrow> string \<Rightarrow> string" where
  "strip_with sp s = rev (dropWhile sp (rev (dropWhile sp s)))"

definition is_digit :: "char \<Rightarrow> bool" where
  "is_digit c = (48 \<le> (of_char c :: nat) \<and> (of_char c :: nat) \<le> 57)"

fun digits_value :: "int \<Rightarrow> string \<Rightarrow> int" where
  "digits_value acc [] = acc"
| "digits_value acc (c # cs) = digits_value (10 * acc + (int (of_char c) - 48)) cs"

text \<open>
  The digits of a decimal literal as \<open>int()\<close> accepts them: digits, with single
  underscores allowed between two digits.
\<close>

definition digits_ok :: "string \<Rightarrow> bool" where
  "digits_ok s =
     (s \<noteq> [] \<and> is_digit (hd s) \<and> is_digit (last s)
      \<and> list_all (\<lambda>c. is_digit c \<or> c = CHR ''_'') s \<and> \<not> contains ''__'' s)"

text \<open>
  \<open>int(s)\<close> in base ten: surrounding whitespace is dropped, one sign is allowed,
  anything else raises \<open>ValueError\<close>.
\<close>

definition py_int :: "string \<Rightarrow> py_error + int" where
  "py_int s =
     (let t = strip_with is_int_space s;
          neg = (t \<noteq> [] \<and> hd t = CHR ''-'');
          d = (if t \<noteq> [] \<and> (hd t = CHR ''-'' \<or> hd t = CHR ''+'') then tl t else t)
      in if digits_ok d
         then Inr ((if neg then - 1 else 1) * digits_value 0 (filter (\<lambda>c. c \<noteq> CHR ''_'') d))
         else Inl ValueError)"

section \<open>The cluster builder\<close>

type_synonym mention_pair = "int \<times> int"
type_synonym cluster = "int set"

text \<open>\<open>set(pair)\<close>\<close>

definition pair_set :: "mention_pair \<Rightarrow> int set" where
  "pair_set p = {fst p, snd p}"

text \<open>
  The inner loop of \<open>_group_mentions_into_clusters\<close>: the clusters are scanned in
  order, the first one that intersects the pair takes both identifiers and the scan
  stops (\<open>break\<close>). The result is the flag \<open>matched\<close> and the cluster list.
\<close>

fun scan_clusters :: "mention_pair \<Rightarrow> cluster list \<Rightarrow> bool \<times> cluster list" where
  "scan_clusters pair [] = (False, [])"
| "scan_clusters pair (cluster # rest) =
     (if pair_set pair \<inter> cluster \<noteq> {} then (True, (cluster \<union> pair_set pair) # rest)
      else (case scan_clusters pair rest of (matched, rest') \<Rightarrow> (matched, cluster # rest')))"

text \<open>The body of the outer loop: one pair.\<close>

definition add_pair :: "mention_pair \<Rightarrow> cluster list \<Rightarrow> cluster list" where
  "add_pair pair cluster_list =
     (case scan_clusters pair cluster_list of
        (matched, cluster_list') \<Rightarrow>
          if \<not> matched then cluster_list' @ [pair_set pair] else cluster_list')"

text \<open>
  \<open>_group_mentions_into_clusters\<close>: no pair gives no cluster; otherwise the first
  pair is the first cluster and the other pairs are added in order.
\<close>

definition group_mentions_into_clusters :: "mention_pair list \<Rightarrow> cluster list" where
  "group_mentions_into_clusters mention_pairs =
     (case mention_pairs of
        [] \<Rightarrow> []
      | first # others \<Rightarrow> fold add_pair others [pair_set first])"

subsection \<open>The cluster builder as the specification words it\<close>

text \<open>
  The specification's algorithm, written from its words and not from the code: start
  from the empty cluster list; for each pair in input order, find the first cluster
  that shares an identifier with the pair and union both identifiers into it, leaving
  every other cluster as it is; when no cluster shares one, append the pair as a new
  cluster.
\<close>

definition shares_none :: "mention_pair \<Rightarrow> cluster \<Rightarrow> bool" where
  "shares_none pair c = (fst pair \<notin> c \<and> snd pair \<notin> c)"

definition spec_absorb :: "cluster list \<Rightarrow> mention_pair \<Rightarrow> cluster list" where
  "spec_absorb cs pair =
     (case dropWhile (shares_none pair) cs of
        [] \<Rightarrow> cs @ [{fst pair, snd pair}]
      | c # later \<Rightarrow> takeWhile (shares_none pair) cs @ (insert (fst pair) (insert (snd pair) c)) # later)"

definition spec_cluster_builder :: "mention_pair list \<Rightarrow> cluster list" where
  "spec_cluster_builder pairs = foldl spec_absorb [] pairs"

section \<open>The preprocessor's state\<close>

text \<open>
  A mention is a Python dictionary created with the key \<open>start\<close> alone; \<open>end\<close>,
  \<open>text\<close> and \<open>type\<close> are stored when the span's end is found, \<open>label\<close> when
  the mention is assigned to a cluster. A key that is not there yet is \<open>None\<close>.
\<close>

record mention =
  m_start :: nat
  m_end :: "nat option"
  m_text :: "string list option"
  m_type :: "string option"
  m_label :: "nat option"

definition new_mention :: "nat \<Rightarrow> mention" where
  "new_mention i = \<lparr>m_start = i, m_end = None, m_text = None, m_type = None, m_label = None\<rparr>"

text \<open>
  \<open>_mention_dict\<close> is a dictionary in insertion order: an association list whose keys
  are distinct. Storing under a key that is there keeps its place, a new key goes last;
  \<open>pop\<close> without a default raises \<open>KeyError\<close> on a key that is not there.
\<close>

type_synonym mention_dict = "(int \<times> mention) list"

definition dict_keys :: "('k \<times> 'v) list \<Rightarrow> 'k set" where
  "dict_keys d = fst ` set d"

definition dict_get :: "('k \<times> 'v) list \<Rightarrow> 'k \<Rightarrow> py_error + 'v" where
  "dict_get d k = (case map_of d k of None \<Rightarrow> Inl KeyError | Some v \<Rightarrow> Inr v)"

fun dict_set :: "'k \<Rightarrow> 'v \<Rightarrow> ('k \<times> 'v) list \<Rightarrow> ('k \<times> 'v) list" where
  "dict_set k v [] = [(k, v)]"
| "dict_set k v (kv # d) = (if fst kv = k then (k, v) # d else kv # dict_set k v d)"

definition dict_pop :: "'k \<Rightarrow> ('k \<times> 'v) list \<Rightarrow> py_error + ('k \<times> 'v) list" where
  "dict_pop k d =
     (if k \<in> dict_keys d then Inr (filter (\<lambda>kv. fst kv \<noteq> k) d) else Inl KeyError)"

text \<open>The five counters of \<open>_statistics\<close>.\<close>

record statistics =
  paragraph_count :: nat
  token_count :: nat
  mention_count :: nat
  cluster_count :: nat
  singleton_count :: nat

text \<open>
  The fields of \<open>CorefDataPreprocessor\<close>: the four flags, the properties of the
  paragraph at hand, and the statistics of the whole corpus (the two \<open>defaultdict\<close>s
  of counts are functions that are 0 where nothing was counted).
\<close>

record preprocessor =
  use_appos :: bool
  use_exappos :: bool
  use_aliases :: bool
  remove_singletons :: bool
  paragraph_text :: string
  tokens :: "string list"
  labels :: "string list list"
  mention_dict :: mention_dict
  clusters :: "cluster list"
  aliases :: "int list"
  exappos_mentions :: "int list"
  appos_mentions :: "int set"
  stats :: statistics
  mention_types :: "string \<Rightarrow> nat"
  link_types :: "string \<Rightarrow> nat"

text \<open>\<open>__init__\<close>\<close>

definition new_preprocessor :: "bool \<Rightarrow> bool \<Rightarrow> bool \<Rightarrow> bool \<Rightarrow> preprocessor" where
  "new_preprocessor appos exappos als singletons =
     \<lparr>use_appos = appos, use_exappos = exappos, use_aliases = als,
      remove_singletons = singletons,
      paragraph_text = [], tokens = [], labels = [], mention_dict = [], clusters = [],
      aliases = [], exappos_mentions = [], appos_mentions = {},
      stats = \<lparr>paragraph_count = 0, token_count = 0, mention_count = 0,
               cluster_count = 0, singleton_count = 0\<rparr>,
      mention_types = (\<lambda>_. 0), link_types = (\<lambda>_. 0)\<rparr>"

section \<open>Span extraction\<close>

definition COREFERENCE_LINK_TYPES :: "string list" where
  "COREFERENCE_LINK_TYPES = [''IDENT'', ''APPOS'', ''ALIAS'', ''EXAPPOS'']"

text \<open>\<open>any(link_type in label for link_type in COREFERENCE_LINK_TYPES)\<close>\<close>

definition is_link :: "string \<Rightarrow> bool" where
  "is_link label = list_ex (\<lambda>link_type. contains link_type label) COREFERENCE_LINK_TYPES"

text \<open>\<open>label.split("[")[1][:-1]\<close>: the text after the first bracket, without its last
  character; \<open>IndexError\<close> when the label has no bracket.\<close>

definition bracket_payload :: "string \<Rightarrow> py_error + string" where
  "bracket_payload label =
     (case py_index (split_chr CHR ''['' label) 1 of
        Inl e \<Rightarrow> Inl e
      | Inr s \<Rightarrow> Inr (butlast s))"

text \<open>\<open>label.split("[")[0]\<close>: \<open>split\<close> never returns the empty list.\<close>

definition label_prefix :: "string \<Rightarrow> string" where
  "label_prefix label = hd (split_chr CHR ''['' label)"

text \<open>\<open>int(label.split("[")[1][:-1])\<close>\<close>

definition mention_id_of :: "string \<Rightarrow> py_error + int" where
  "mention_id_of label =
     (case bracket_payload label of Inl e \<Rightarrow> Inl e | Inr s \<Rightarrow> py_int s)"

text \<open>
  The test that closes a span at position \<open>i\<close>: \<open>i\<close> is the last position, or the
  label does not occur in the label list of the next position. The \<open>or\<close> of the source
  reads \<open>labels[i+1]\<close> only when \<open>i\<close> is not the last position.
\<close>

definition span_ends :: "string list list \<Rightarrow> nat \<Rightarrow> string \<Rightarrow> bool" where
  "span_ends ls i label = (i = length ls - 1 \<or> label \<notin> set (ls ! (i + 1)))"

text \<open>The body of the inner loop of \<open>_extract_mentions\<close>: one label of position \<open>i\<close>.\<close>

definition extract_label :: "nat \<Rightarrow> string \<Rightarrow> preprocessor \<Rightarrow> py_error + preprocessor" where
  "extract_label i label st =
     (if is_link label then Inr st
      else if length label = 0 then Inr st
      else
        (case mention_id_of label of
           Inl e \<Rightarrow> Inl e
         | Inr mention_id \<Rightarrow>
             let md = (if mention_id \<notin> dict_keys (mention_dict st)
                       then dict_set mention_id (new_mention i) (mention_dict st)
                       else mention_dict st)
             in if span_ends (labels st) i label
                then (case dict_get md mention_id of
                        Inl e \<Rightarrow> Inl e
                      | Inr m \<Rightarrow>
                          Inr (st\<lparr>mention_dict :=
                                dict_set mention_id
                                  (m\<lparr>m_end := Some i,
                                     m_text := Some (slice (tokens st) (m_start m) (i + 1)),
                                     m_type := Some (label_prefix label)\<rparr>) md\<rparr>))
                else Inr (st\<lparr>mention_dict := md\<rparr>)))"

text \<open>The body of the outer loop: a position whose label list holds the placeholder
  is left (\<open>continue\<close>) before any of its labels is looked at.\<close>

definition extract_position :: "nat \<Rightarrow> preprocessor \<Rightarrow> py_error + preprocessor" where
  "extract_position i st =
     (let label_list = labels st ! i
      in if ''_'' \<in> set label_list then Inr st
         else for_each (extract_label i) label_list st)"

text \<open>\<open>_extract_mentions\<close>: \<open>enumerate(labels)\<close> visits every position in order.\<close>

definition extract_mentions :: "preprocessor \<Rightarrow> py_error + preprocessor" where
  "extract_mentions st = for_each extract_position [0..<length (labels st)] st"

section \<open>Appositive fusion\<close>

text \<open>
  The body of the loop of \<open>_handle_appositives\<close>, for one sorted tuple of an
  appositive cluster. \<open>mention_pair[1]\<close> goes into \<open>_appos_mentions\<close>; with
  \<open>use_appos\<close> the head \<open>mention_pair[0]\<close> takes the end of \<open>mention_pair[-1]\<close>,
  and one more token when the fused text has one unclosed parenthesis and that token
  is the closing one. Every subscript of the source is a branch: a tuple of one
  element, a mention that is not in the dictionary, a mention without \<open>end\<close>, and
  the token after the new end.
\<close>

definition fuse_appositive :: "int list \<Rightarrow> preprocessor \<Rightarrow> py_error + preprocessor" where
  "fuse_appositive mention_pair st =
     (case py_index mention_pair 1 of
        Inl e \<Rightarrow> Inl e
      | Inr second \<Rightarrow>
          let st1 = st\<lparr>appos_mentions := insert second (appos_mentions st)\<rparr>
          in if \<not> use_appos st1 then Inr st1
             else
               (case dict_get (mention_dict st1) (hd mention_pair) of
                  Inl e \<Rightarrow> Inl e
                | Inr head \<Rightarrow>
                    (case dict_get (mention_dict st1) (last mention_pair) of
                       Inl e \<Rightarrow> Inl e
                     | Inr tail \<Rightarrow>
                         (case m_end tail of
                            None \<Rightarrow> Inl KeyError
                          | Some new_span_end \<Rightarrow>
                              let span_start = m_start head;
                                  fused_text = slice (tokens st1) span_start (new_span_end + 1);
                                  head1 = head\<lparr>m_end := Some new_span_end,
                                               m_text := Some fused_text\<rparr>;
                                  st2 = st1\<lparr>mention_dict :=
                                          dict_set (hd mention_pair) head1 (mention_dict st1)\<rparr>
                              in if count_list fused_text ''('' = count_list fused_text '')'' + 1
                                 then
                                   (case py_index (tokens st2) (new_span_end + 1) of
                                      Inl e \<Rightarrow> Inl e
                                    | Inr token \<Rightarrow>
                                        if token = '')''
                                        then Inr (st2\<lparr>mention_dict :=
                                               dict_set (hd mention_pair)
                                                 (head1\<lparr>m_end := Some (new_span_end + 1),
                                                        m_text := Some (slice (tokens st2)
                                                          span_start (new_span_end + 2))\<rparr>)
                                                 (mention_dict st2)\<rparr>)
                                        else Inr st2)
                                 else Inr st2))))"

text \<open>\<open>_handle_appositives\<close>: the appositive pairs are clustered and every cluster is
  turned into the sorted tuple of its members.\<close>

definition handle_appositives ::
  "mention_pair list \<Rightarrow> preprocessor \<Rightarrow> py_error + preprocessor" where
  "handle_appositives appositive_pairs st =
     for_each fuse_appositive
       (map sorted_list_of_set (group_mentions_into_clusters appositive_pairs)) st"

section \<open>Link extraction\<close>

text \<open>
  The state of the first loop of \<open>_extract_coreference_links\<close>: the two local lists
  and the object. Its body, for one label: a label that names a relation kind is
  split at the bracket and at the underscore; a payload that does not have two parts
  is skipped; the two parts go through \<open>int()\<close>; the pair is filed under its class.
\<close>

type_synonym link_state = "mention_pair list \<times> mention_pair list \<times> preprocessor"

definition scan_link_label :: "string \<Rightarrow> link_state \<Rightarrow> py_error + link_state" where
  "scan_link_label label ls =
     (case ls of (mention_pairs, appositive_pairs, st) \<Rightarrow>
        if is_link label then
          (case bracket_payload label of
             Inl e \<Rightarrow> Inl e
           | Inr payload \<Rightarrow>
               let mention_pair = split_chr CHR ''_'' payload;
                   label_class = label_prefix label
               in if length mention_pair \<noteq> 2 then Inr ls
                  else
                    let st1 = st\<lparr>link_types :=
                                (link_types st)(label_class := link_types st label_class + 1)\<rparr>
                    in (case py_int (mention_pair ! 0) of
                          Inl e \<Rightarrow> Inl e
                        | Inr a \<Rightarrow>
                            (case py_int (mention_pair ! 1) of
                               Inl e \<Rightarrow> Inl e
                             | Inr b \<Rightarrow>
                                 if label_class = ''APPOS''
                                 then Inr (mention_pairs, appositive_pairs @ [(a, b)], st1)
                                 else
                                   let st2 = (if \<not> use_aliases st1 \<and> label_class = ''ALIAS''
                                              then st1\<lparr>aliases := aliases st1 @ [b]\<rparr>
                                              else st1);
                                       st3 = (if \<not> use_exappos st2 \<and> label_class = ''EXAPPOS''
                                              then st2\<lparr>exappos_mentions :=
                                                     exappos_mentions st2 @ [b]\<rparr>
                                              else st2)
                                   in Inr (mention_pairs @ [(a, b)], appositive_pairs, st3))))
        else Inr ls)"

text \<open>The first loop: every label of every position, in order.\<close>

definition scan_links :: "preprocessor \<Rightarrow> py_error + link_state" where
  "scan_links st =
     for_each (\<lambda>label_list. for_each scan_link_label label_list) (labels st) ([], [], st)"

text \<open>\<open>{mention for mention_pair in mention_pairs for mention in mention_pair}\<close>\<close>

definition endpoints :: "mention_pair list \<Rightarrow> int set" where
  "endpoints mention_pairs = fst ` set mention_pairs \<union> snd ` set mention_pairs"

text \<open>
  The body of the disposal loop: a bare appositive that is no endpoint of a
  coreference pair is popped from the dictionary.
\<close>

definition dispose_appos :: "mention_pair list \<Rightarrow> int \<Rightarrow> preprocessor \<Rightarrow> py_error + preprocessor" where
  "dispose_appos mention_pairs mention st =
     (if mention \<notin> endpoints mention_pairs
      then (case dict_pop mention (mention_dict st) of
              Inl e \<Rightarrow> Inl e
            | Inr md \<Rightarrow> Inr (st\<lparr>mention_dict := md\<rparr>))
      else Inr st)"

text \<open>
  \<open>_extract_coreference_links\<close>. The check of the pairs against the dictionary only
  prints. The disposal loop runs over a Python set; the members are taken in
  increasing order here, and the outcome does not depend on the order: the pops are
  of distinct keys, and any missing key raises the same \<open>KeyError\<close>.
\<close>

definition extract_coreference_links :: "preprocessor \<Rightarrow> py_error + preprocessor" where
  "extract_coreference_links st =
     (case scan_links st of
        Inl e \<Rightarrow> Inl e
      | Inr (mention_pairs, appositive_pairs, st1) \<Rightarrow>
          (case handle_appositives appositive_pairs st1 of
             Inl e \<Rightarrow> Inl e
           | Inr st2 \<Rightarrow>
               (case for_each (dispose_appos mention_pairs)
                       (sorted_list_of_set (appos_mentions st2)) st2 of
                  Inl e \<Rightarrow> Inl e
                | Inr st3 \<Rightarrow>
                    Inr (st3\<lparr>clusters := group_mentions_into_clusters mention_pairs\<rparr>))))"

section \<open>Cluster assignment and removal\<close>

text \<open>The index of the first cluster that holds the identifier, counted from \<open>i\<close>.\<close>

fun find_cluster :: "int \<Rightarrow> cluster list \<Rightarrow> nat \<Rightarrow> nat option" where
  "find_cluster mention_id [] i = None"
| "find_cluster mention_id (cluster # rest) i =
     (if mention_id \<in> cluster then Some i else find_cluster mention_id rest (Suc i))"

text \<open>
  The first loop of \<open>_assign_mentions_to_clusters\<close>, for one item of the dictionary:
  the mention takes the index of its cluster as label, or it is counted and listed
  as a singleton.
\<close>

definition assign_mention ::
  "cluster list \<Rightarrow> int \<times> mention \<Rightarrow> mention_dict \<times> int list \<Rightarrow> mention_dict \<times> int list" where
  "assign_mention cs item acc =
     (case acc of (assigned, singletons) \<Rightarrow>
        (case find_cluster (fst item) cs 0 of
           Some i \<Rightarrow> (assigned @ [(fst item, (snd item)\<lparr>m_label := Some i\<rparr>)], singletons)
         | None \<Rightarrow> (assigned @ [item], singletons @ [fst item])))"

definition pop_mention :: "int \<Rightarrow> preprocessor \<Rightarrow> py_error + preprocessor" where
  "pop_mention mention_id st =
     (case dict_pop mention_id (mention_dict st) of
        Inl e \<Rightarrow> Inl e
      | Inr md \<Rightarrow> Inr (st\<lparr>mention_dict := md\<rparr>))"

definition assign_mentions_to_clusters :: "preprocessor \<Rightarrow> py_error + preprocessor" where
  "assign_mentions_to_clusters st =
     (case fold (assign_mention (clusters st)) (mention_dict st) ([], []) of
        (md, singletons) \<Rightarrow>
          let st1 = st\<lparr>mention_dict := md,
                       stats := (stats st)\<lparr>singleton_count :=
                                  singleton_count (stats st) + length singletons\<rparr>\<rparr>
          in if remove_singletons st1 then for_each pop_mention singletons st1
             else Inr st1)"

text \<open>
  The body of the loops of \<open>_remove_aliases\<close> and \<open>_remove_exappos\<close>: the mention
  is popped from the dictionary and taken out of every cluster.
\<close>

definition remove_mention :: "int \<Rightarrow> preprocessor \<Rightarrow> py_error + preprocessor" where
  "remove_mention mention_id st =
     (case dict_pop mention_id (mention_dict st) of
        Inl e \<Rightarrow> Inl e
      | Inr md \<Rightarrow>
          Inr (st\<lparr>mention_dict := md,
                  clusters := map (\<lambda>cluster. cluster - {mention_id}) (clusters st)\<rparr>))"

definition remove_aliases :: "preprocessor \<Rightarrow> py_error + preprocessor" where
  "remove_aliases st =
     (if length (aliases st) > 0 then for_each remove_mention (aliases st) st else Inr st)"

definition remove_exappos :: "preprocessor \<Rightarrow> py_error + preprocessor" where
  "remove_exappos st =
     (if length (exappos_mentions st) > 0
      then for_each remove_mention (exappos_mentions st) st else Inr st)"

text \<open>\<open>get_coref_info\<close>\<close>

definition get_coref_info :: "preprocessor \<Rightarrow> py_error + preprocessor" where
  "get_coref_info st =
     (case extract_mentions st of
        Inl e \<Rightarrow> Inl e
      | Inr st1 \<Rightarrow>
          (case extract_coreference_links st1 of
             Inl e \<Rightarrow> Inl e
           | Inr st2 \<Rightarrow>
               (case assign_mentions_to_clusters st2 of
                  Inl e \<Rightarrow> Inl e
                | Inr st3 \<Rightarrow>
                    (case (if \<not> use_aliases st3 then remove_aliases st3 else Inr st3) of
                       Inl e \<Rightarrow> Inl e
                     | Inr st4 \<Rightarrow>
                         if \<not> use_exappos st4 then remove_exappos st4 else Inr st4))))"

section \<open>Paragraphs\<close>

text \<open>
  \<open>get_paragraph_data\<close>: the first line without its six leading characters is the
  text; of every other line with more than one column, the third column is the token
  and the fourth the label list. A line with two or three columns raises
  \<open>IndexError\<close>.
\<close>

definition read_line ::
  "string \<Rightarrow> string list \<times> string list list \<Rightarrow> py_error + string list \<times> string list list" where
  "read_line line acc =
     (case acc of (toks, labs) \<Rightarrow>
        let columns = split_chr CHR 0x09 line
        in if length columns = 1 then Inr (toks, labs)
           else
             (case py_index columns 2 of
                Inl e \<Rightarrow> Inl e
              | Inr token \<Rightarrow>
                  (case py_index columns 3 of
                     Inl e \<Rightarrow> Inl e
                   | Inr column \<Rightarrow> Inr (toks @ [token], labs @ [split_chr CHR ''|'' column]))))"

definition get_paragraph_data :: "string \<Rightarrow> preprocessor \<Rightarrow> py_error + preprocessor" where
  "get_paragraph_data paragraph st =
     (let lines = split_chr CHR 0x0A (strip_with is_space paragraph)
      in (case for_each read_line (tl lines) ([], []) of
            Inl e \<Rightarrow> Inl e
          | Inr (toks, labs) \<Rightarrow>
              Inr (st\<lparr>paragraph_text := drop 6 (hd lines), tokens := toks, labels := labs\<rparr>)))"

text \<open>\<open>reset\<close>, with the assignments the source makes.\<close>

definition reset :: "preprocessor \<Rightarrow> preprocessor" where
  "reset st = st\<lparr>paragraph_text := [], tokens := [], labels := [], mention_dict := [],
                clusters := [], aliases := [], appos_mentions := {}\<rparr>"

text \<open>The record written for a paragraph.\<close>

record paragraph_dict =
  pd_text :: string
  pd_tokens :: "string list"
  pd_corefs :: "mention list"

text \<open>\<open>_accumulate_mention_type_counts\<close>: \<open>mention["type"]\<close> raises \<open>KeyError\<close>
  for a mention whose span was never closed.\<close>

definition count_mention_type :: "mention \<Rightarrow> preprocessor \<Rightarrow> py_error + preprocessor" where
  "count_mention_type m st =
     (case m_type m of
        None \<Rightarrow> Inl KeyError
      | Some t \<Rightarrow> Inr (st\<lparr>mention_types := (mention_types st)(t := mention_types st t + 1)\<rparr>))"

definition accumulate_mention_type_counts :: "preprocessor \<Rightarrow> py_error + preprocessor" where
  "accumulate_mention_type_counts st =
     for_each count_mention_type (map snd (mention_dict st)) st"

text \<open>
  The body of the loop of \<open>convert_tsv_to_jsonl\<close>, for one paragraph: the record is
  appended to the output, the counters are updated, and the object is reset.
\<close>

definition process_paragraph ::
  "string \<Rightarrow> paragraph_dict list \<times> preprocessor \<Rightarrow> py_error + paragraph_dict list \<times> preprocessor" where
  "process_paragraph paragraph acc =
     (case acc of (output_data, st) \<Rightarrow>
        (case get_paragraph_data paragraph st of
           Inl e \<Rightarrow> Inl e
         | Inr st1 \<Rightarrow>
             (case get_coref_info st1 of
                Inl e \<Rightarrow> Inl e
              | Inr st2 \<Rightarrow>
                  let paragraph_dict = \<lparr>pd_text = paragraph_text st2, pd_tokens = tokens st2,
                                        pd_corefs = map snd (mention_dict st2)\<rparr>;
                      st3 = st2\<lparr>stats := (stats st2)
                              \<lparr>paragraph_count := paragraph_count (stats st2) + 1,
                               token_count := token_count (stats st2) + length (tokens st2),
                               mention_count := mention_count (stats st2)
                                                  + length (mention_dict st2),
                               cluster_count := cluster_count (stats st2)
                                                  + length (clusters st2)\<rparr>\<rparr>
                  in (case accumulate_mention_type_counts st3 of
                        Inl e \<Rightarrow> Inl e
                      | Inr st4 \<Rightarrow> Inr (output_data @ [paragraph_dict], reset st4)))))"

text \<open>
  \<open>convert_tsv_to_jsonl\<close> on the contents of the input file: the records that are
  written when no paragraph raised. Nothing is written when one did.
\<close>

definition convert :: "preprocessor \<Rightarrow> string \<Rightarrow> py_error + paragraph_dict list" where
  "convert st data =
     (case for_each process_paragraph (split_blank data) ([], st) of
        Inl e \<Rightarrow> Inl e
      | Inr (output_data, st') \<Rightarrow> Inr output_data)"

section \<open>Sample inputs\<close>

text \<open>
  The object after \<open>get_paragraph_data\<close> has stored the tokens and label lists of
  a paragraph in a freshly made preprocessor.
\<close>

definition loaded ::
  "bool \<Rightarrow> bool \<Rightarrow> bool \<Rightarrow> bool \<Rightarrow> string list \<Rightarrow> string list list \<Rightarrow> preprocessor" where
  "loaded appos exappos als singletons toks labs =
     (new_preprocessor appos exappos als singletons)\<lparr>tokens := toks, labels := labs\<rparr>"

text \<open>A line of the annotation file: two leading columns, the token, the labels.\<close>

definition tsv_line :: "string \<Rightarrow> string \<Rightarrow> string" where
  "tsv_line token label_column =
     ''1-1'' @ [CHR 0x09] @ ''0-1'' @ [CHR 0x09] @ token @ [CHR 0x09] @ label_column @ [CHR 0x0A]"

text \<open>A block of the annotation file: the text line and the token lines.\<close>

definition tsv_block :: "string \<Rightarrow> string list \<Rightarrow> string" where
  "tsv_block txt token_lines = ''#Text='' @ txt @ [CHR 0x0A] @ concat token_lines"

section \<open>The relations and span ends a label sequence encodes\<close>

text \<open>
  The relation that a label encodes, read off the label alone: its class and its
  pair of identifiers, when the label names a relation kind and its payload is two
  parts that \<open>int()\<close> accepts.
\<close>

definition parsed_link :: "string \<Rightarrow> (string \<times> mention_pair) option" where
  "parsed_link label =
     (if is_link label then
        (case bracket_payload label of
           Inl e \<Rightarrow> None
         | Inr payload \<Rightarrow>
             (case split_chr CHR ''_'' payload of
                [x, y] \<Rightarrow>
                  (case (py_int x, py_int y) of
                     (Inr a, Inr b) \<Rightarrow> Some (label_prefix label, (a, b))
                   | _ \<Rightarrow> None)
              | _ \<Rightarrow> None))
      else None)"

definition parsed_links :: "string list \<Rightarrow> (string \<times> mention_pair) list" where
  "parsed_links label_list = List.map_filter parsed_link label_list"

text \<open>The pairs of one class (or of every other class), and their second identifiers.\<close>

definition pairs_of_kind :: "string \<Rightarrow> (string \<times> mention_pair) list \<Rightarrow> mention_pair list" where
  "pairs_of_kind kind links = map snd (filter (\<lambda>l. fst l = kind) links)"

definition pairs_not_of_kind :: "string \<Rightarrow> (string \<times> mention_pair) list \<Rightarrow> mention_pair list" where
  "pairs_not_of_kind kind links = map snd (filter (\<lambda>l. fst l \<noteq> kind) links)"

definition seconds_of_kind :: "string \<Rightarrow> (string \<times> mention_pair) list \<Rightarrow> int list" where
  "seconds_of_kind kind links = map snd (pairs_of_kind kind links)"

text \<open>
  What the scan of a sequence of labels adds to the two pair lists and to the two
  candidate lists, given the relations \<open>links\<close> of the sequence.
\<close>

definition link_effect :: "(string \<times> mention_pair) list \<Rightarrow> link_state \<Rightarrow> link_state \<Rightarrow> bool" where
  "link_effect links before after =
     (case before of (mps, aps, st) \<Rightarrow>
      case after of (mps', aps', st') \<Rightarrow>
        mps' = mps @ pairs_not_of_kind ''APPOS'' links
        \<and> aps' = aps @ pairs_of_kind ''APPOS'' links
        \<and> aliases st' = aliases st
             @ (if use_aliases st then [] else seconds_of_kind ''ALIAS'' links)
        \<and> exappos_mentions st' = exappos_mentions st
             @ (if use_exappos st then [] else seconds_of_kind ''EXAPPOS'' links)
        \<and> use_aliases st' = use_aliases st \<and> use_exappos st' = use_exappos st
        \<and> use_appos st' = use_appos st \<and> remove_singletons st' = remove_singletons st
        \<and> mention_dict st' = mention_dict st \<and> tokens st' = tokens st
        \<and> labels st' = labels st \<and> appos_mentions st' = appos_mentions st
        \<and> clusters st' = clusters st)"






section \<open>Predicates on the state\<close>

text \<open>
  A mention's span lies within \<open>n\<close> tokens: a recorded end is below \<open>n\<close> (and,
  when \<open>ordered\<close>, not before the start), and a mention with a type has an end.
\<close>

definition span_ok :: "nat \<Rightarrow> bool \<Rightarrow> mention \<Rightarrow> bool" where
  "span_ok n ordered m =
     (case m_end m of
        None \<Rightarrow> m_type m = None
      | Some e \<Rightarrow> e < n \<and> (ordered \<longrightarrow> m_start m \<le> e))"

definition spans_ok :: "nat \<Rightarrow> bool \<Rightarrow> mention_dict \<Rightarrow> bool" where
  "spans_ok n ordered md = (\<forall>kv \<in> set md. span_ok n ordered (snd kv))"

text \<open>No mention starts after position \<open>i\<close>.\<close>

definition starts_le :: "nat \<Rightarrow> mention_dict \<Rightarrow> bool" where
  "starts_le i md = (\<forall>kv \<in> set md. m_start (snd kv) \<le> i)"

text \<open>Two states with the same flags, tokens, label lists and candidate lists.\<close>

definition same_settings :: "preprocessor \<Rightarrow> preprocessor \<Rightarrow> bool" where
  "same_settings st st' =
     (use_appos st' = use_appos st \<and> use_exappos st' = use_exappos st
      \<and> use_aliases st' = use_aliases st \<and> remove_singletons st' = remove_singletons st
      \<and> tokens st' = tokens st \<and> labels st' = labels st
      \<and> paragraph_text st' = paragraph_text st
      \<and> aliases st' = aliases st \<and> exappos_mentions st' = exappos_mentions st)"

text \<open>An item of the dictionary with the label that the assignment loop gives it.\<close>

definition relabel :: "cluster list \<Rightarrow> int \<times> mention \<Rightarrow> int \<times> mention" where
  "relabel cs item =
     (case find_cluster (fst item) cs 0 of
        Some i \<Rightarrow> (fst item, (snd item)\<lparr>m_label := Some i\<rparr>)
      | None \<Rightarrow> item)"

text \<open>
  Every mention of a written record has an end, the end is an index into the
  record's tokens, and, unless spans were \<open>fused\<close>, the start is not after the end.
\<close>

definition spans_valid :: "bool \<Rightarrow> paragraph_dict \<Rightarrow> bool" where
  "spans_valid fused r =
     (\<forall>m \<in> set (pd_corefs r).
        case m_end m of
          None \<Rightarrow> False
        | Some e \<Rightarrow> e < length (pd_tokens r) \<and> (\<not> fused \<longrightarrow> m_start m \<le> e))"

section \<open>Loops\<close>

lemma for_each_invariant:
  assumes "for_each body xs s = Inr s'" and "P s"
    and "\<And>x t t'. x \<in> set xs \<Longrightarrow> P t \<Longrightarrow> body x t = Inr t' \<Longrightarrow> P t'"
  shows "P s'"
  using assms
proof (induction xs arbitrary: s)
  case Nil
  then show ?case by simp
next
  case (Cons x xs)
  from Cons.prems(1) obtain t where t: "body x s = Inr t" and rest: "for_each body xs t = Inr s'"
    by (auto split: sum.splits)
  have "P t" using Cons.prems(2,3) t by auto
  then show ?case using Cons.IH [OF rest] Cons.prems(3) by auto
qed

section \<open>The dictionary\<close>


lemma dict_keys_dict_set: "dict_keys (dict_set k v d) = insert k (dict_keys d)"
  by (induction d) (auto simp: dict_keys_def)




lemma dict_get_Inr_iff: "(dict_get d k = Inr m) = (map_of d k = Some m)"
  by (simp add: dict_get_def split: option.splits)

section \<open>The effect of the link scan\<close>

lemma link_effect_refl: "link_effect [] a a"
  by (cases a) (simp add: link_effect_def pairs_of_kind_def pairs_not_of_kind_def seconds_of_kind_def)

lemma link_effect_trans:
  "link_effect xs a b \<Longrightarrow> link_effect ys b c \<Longrightarrow> link_effect (xs @ ys) a c"
  by (cases a, cases b, cases c)
    (simp add: link_effect_def pairs_of_kind_def pairs_not_of_kind_def seconds_of_kind_def)

lemma scan_link_label_effect:
  assumes "scan_link_label label a = Inr b"
  shows "link_effect (parsed_links [label]) a b"
proof (cases a)
  case (fields mps aps st)
  show ?thesis
  proof (cases "is_link label")
    case False
    then show ?thesis using assms fields
      by (simp add: scan_link_label_def parsed_links_def parsed_link_def map_filter_simps
          link_effect_refl)
  next
    case True
    then obtain payload where payload: "bracket_payload label = Inr payload"
      using assms fields by (auto simp: scan_link_label_def split: sum.splits)
    show ?thesis
    proof (cases "length (split_chr CHR ''_'' payload) = 2")
      case False
      then have "parsed_link label = None"
        using True payload
        by (auto simp: parsed_link_def split: list.splits)
      moreover have "b = a"
        using assms fields True payload False by (simp add: scan_link_label_def)
      ultimately show ?thesis
        by (simp add: parsed_links_def map_filter_simps link_effect_refl)
    next
      case two: True
      then obtain x y where xy: "split_chr CHR ''_'' payload = [x, y]"
        by (cases "split_chr CHR ''_'' payload" rule: list.exhaust)
          (auto simp: length_Suc_conv)
      from assms fields True payload xy obtain u v where u: "py_int x = Inr u" and v: "py_int y = Inr v"
        by (auto simp: scan_link_label_def Let_def split: sum.splits)
      have pl: "parsed_links [label] = [(label_prefix label, (u, v))]"
        using True payload xy u v
        by (simp add: parsed_links_def parsed_link_def map_filter_simps)
      show ?thesis
        using assms fields True payload xy u v unfolding pl
        by (auto simp: scan_link_label_def Let_def link_effect_def pairs_of_kind_def
            pairs_not_of_kind_def seconds_of_kind_def split: if_splits)
    qed
  qed
qed

lemma parsed_links_Cons: "parsed_links (l # ls) = parsed_links [l] @ parsed_links ls"
  by (simp add: parsed_links_def map_filter_def)

lemma parsed_links_append: "parsed_links (xs @ ys) = parsed_links xs @ parsed_links ys"
  by (simp add: parsed_links_def map_filter_def)

lemma scan_label_list_effect:
  "for_each scan_link_label label_list a = Inr b \<Longrightarrow> link_effect (parsed_links label_list) a b"
proof (induction label_list arbitrary: a)
  case Nil
  then show ?case by (simp add: parsed_links_def map_filter_simps link_effect_refl)
next
  case (Cons l ls)
  from Cons.prems obtain c where c: "scan_link_label l a = Inr c"
    and rest: "for_each scan_link_label ls c = Inr b"
    by (auto split: sum.splits)
  show ?case
    using link_effect_trans [OF scan_link_label_effect [OF c] Cons.IH [OF rest]]
    by (simp add: parsed_links_Cons [of l ls])
qed

lemma scan_positions_effect:
  "for_each (\<lambda>label_list. for_each scan_link_label label_list) lss a = Inr b
   \<Longrightarrow> link_effect (parsed_links (concat lss)) a b"
proof (induction lss arbitrary: a)
  case Nil
  then show ?case by (simp add: parsed_links_def map_filter_simps link_effect_refl)
next
  case (Cons ls lss)
  from Cons.prems obtain c where c: "for_each scan_link_label ls a = Inr c"
    and rest: "for_each (\<lambda>label_list. for_each scan_link_label label_list) lss c = Inr b"
    by (auto split: sum.splits)
  show ?case
    using link_effect_trans [OF scan_label_list_effect [OF c] Cons.IH [OF rest]]
    by (simp add: parsed_links_append)
qed

lemma scan_links_effect:
  "scan_links st = Inr b \<Longrightarrow> link_effect (parsed_links (concat (labels st))) ([], [], st) b"
  unfolding scan_links_def by (rule scan_positions_effect)

section \<open>What each stage of a paragraph preserves\<close>

lemma same_settings_refl [simp]: "same_settings st st"
  by (simp add: same_settings_def)

lemma same_settings_trans: "same_settings a b \<Longrightarrow> same_settings b c \<Longrightarrow> same_settings a c"
  by (simp add: same_settings_def)

lemma same_settings_mention_dict [simp]: "same_settings st (st\<lparr>mention_dict := md\<rparr>)"
  by (simp add: same_settings_def)

lemma set_dict_set_subset: "set (dict_set k v d) \<subseteq> insert (k, v) (set d)"
  by (induction d) auto

lemma dict_get_in_set: "dict_get d k = Inr m \<Longrightarrow> (k, m) \<in> set d"
  by (auto simp: dict_get_def split: option.splits dest: map_of_SomeD)

lemma dict_get_key: "dict_get d k = Inr m \<Longrightarrow> k \<in> dict_keys d"
  by (auto simp: dict_keys_def dest: dict_get_in_set intro: rev_image_eqI)

lemma dict_pop_Inr:
  "dict_pop k d = Inr d' \<Longrightarrow> d' = filter (\<lambda>kv. fst kv \<noteq> k) d \<and> k \<in> dict_keys d"
  by (auto simp: dict_pop_def split: if_splits)

lemma dict_keys_filter: "dict_keys (filter (\<lambda>kv. fst kv \<noteq> k) d) = dict_keys d - {k}"
  by (auto simp: dict_keys_def)

lemma spans_ok_dict_set:
  "spans_ok n b d \<Longrightarrow> span_ok n b v \<Longrightarrow> spans_ok n b (dict_set k v d)"
  using set_dict_set_subset [of k v d] by (auto simp: spans_ok_def)

lemma starts_le_dict_set:
  "starts_le i d \<Longrightarrow> m_start v \<le> i \<Longrightarrow> starts_le i (dict_set k v d)"
  using set_dict_set_subset [of k v d] by (auto simp: starts_le_def)

lemma spans_ok_subset: "spans_ok n b d \<Longrightarrow> set d' \<subseteq> set d \<Longrightarrow> spans_ok n b d'"
  by (auto simp: spans_ok_def)

lemma spans_ok_weaken: "spans_ok n True d \<Longrightarrow> n \<le> n' \<Longrightarrow> spans_ok n' b d"
  by (auto simp: spans_ok_def span_ok_def split: option.splits)

lemma spans_ok_get: "spans_ok n b d \<Longrightarrow> dict_get d k = Inr m \<Longrightarrow> span_ok n b m"
  using dict_get_in_set [of d k m] by (fastforce simp: spans_ok_def)

lemma starts_le_get: "starts_le i d \<Longrightarrow> dict_get d k = Inr m \<Longrightarrow> m_start m \<le> i"
  using dict_get_in_set [of d k m] by (fastforce simp: starts_le_def)

subsection \<open>Span extraction\<close>

lemma frame_fields:
  assumes "t = st\<lparr>mention_dict := md\<rparr>"
  shows "same_settings st t" and "appos_mentions t = appos_mentions st"
    and "clusters t = clusters st"
  using assms by (simp_all add: same_settings_def)

lemma frame_step:
  assumes "t = st\<lparr>mention_dict := mention_dict t\<rparr>"
    and "t' = t\<lparr>mention_dict := mention_dict t'\<rparr>"
  shows "t' = st\<lparr>mention_dict := mention_dict t'\<rparr>"
proof -
  have "t' = (st\<lparr>mention_dict := mention_dict t\<rparr>)\<lparr>mention_dict := mention_dict t'\<rparr>"
    using assms(2) by (simp only: assms(1) [symmetric])
  then show ?thesis by simp
qed

lemma for_each_frame:
  assumes "for_each body xs st = Inr st'"
    and "\<And>x t t'. body x t = Inr t' \<Longrightarrow> t' = t\<lparr>mention_dict := mention_dict t'\<rparr>"
  shows "st' = st\<lparr>mention_dict := mention_dict st'\<rparr>"
proof -
  have "st = st\<lparr>mention_dict := mention_dict st\<rparr>"
    by simp
  with assms(1) show ?thesis
    by (rule for_each_invariant) (use assms(2) in \<open>blast intro: frame_step\<close>)
qed

lemma extract_label_frame:
  "extract_label i label st = Inr st' \<Longrightarrow> st' = st\<lparr>mention_dict := mention_dict st'\<rparr>"
  by (auto simp: extract_label_def Let_def split: if_splits sum.splits)

lemma extract_position_frame:
  assumes "extract_position i st = Inr st'"
  shows "st' = st\<lparr>mention_dict := mention_dict st'\<rparr>"
proof (cases "''_'' \<in> set (labels st ! i)")
  case True
  then show ?thesis
    using assms by (simp add: extract_position_def)
next
  case False
  then have "for_each (extract_label i) (labels st ! i) st = Inr st'"
    using assms by (simp add: extract_position_def)
  then show ?thesis
    by (rule for_each_frame) (rule extract_label_frame)
qed

lemma extract_mentions_frame:
  assumes "extract_mentions st = Inr st'"
  shows "st' = st\<lparr>mention_dict := mention_dict st'\<rparr>"
proof -
  have "for_each extract_position [0..<length (labels st)] st = Inr st'"
    using assms by (simp add: extract_mentions_def)
  then show ?thesis
    by (rule for_each_frame) (rule extract_position_frame)
qed

lemma extract_label_spans:
  assumes "extract_label i label st = Inr st'" and "i < n"
    and "spans_ok n True (mention_dict st)" and "starts_le i (mention_dict st)"
  shows "spans_ok n True (mention_dict st') \<and> starts_le i (mention_dict st')"
proof (cases "is_link label \<or> label = []")
  case True
  then show ?thesis using assms by (auto simp: extract_label_def split: if_splits)
next
  case False
  then obtain j where j: "mention_id_of label = Inr j"
    using assms by (auto simp: extract_label_def split: sum.splits)
  define md where "md = (if j \<notin> dict_keys (mention_dict st)
                       then dict_set j (new_mention i) (mention_dict st)
                       else mention_dict st)"
  have md: "spans_ok n True md \<and> starts_le i md"
    using assms(3,4)
    by (auto simp: md_def new_mention_def span_ok_def intro!: spans_ok_dict_set starts_le_dict_set)
  show ?thesis
  proof (cases "span_ends (labels st) i label")
    case True
    then obtain m where m: "dict_get md j = Inr m"
      and st': "st' = st\<lparr>mention_dict := dict_set j
                  (m\<lparr>m_end := Some i,
                     m_text := Some (slice (tokens st) (m_start m) (i + 1)),
                     m_type := Some (label_prefix label)\<rparr>) md\<rparr>"
      using assms(1) False j
      by (auto simp: extract_label_def Let_def md_def split: sum.splits)
    have "m_start m \<le> i" using md m by (auto dest: starts_le_get)
    then show ?thesis
      using md assms(2)
      by (auto simp: st' span_ok_def intro!: spans_ok_dict_set starts_le_dict_set)
  next
    case no: False
    then have "st' = st\<lparr>mention_dict := md\<rparr>"
      using assms(1) False j by (auto simp: extract_label_def Let_def md_def)
    then show ?thesis using md by simp
  qed
qed

lemma extract_position_spans:
  assumes "extract_position i st = Inr st'" and "i < n"
    and "spans_ok n True (mention_dict st) \<and> starts_le i (mention_dict st)"
  shows "spans_ok n True (mention_dict st') \<and> starts_le i (mention_dict st')"
proof (cases "''_'' \<in> set (labels st ! i)")
  case True
  then show ?thesis using assms by (simp add: extract_position_def)
next
  case False
  then have run: "for_each (extract_label i) (labels st ! i) st = Inr st'"
    using assms by (simp add: extract_position_def)
  from run assms(3) show ?thesis
    by (rule for_each_invariant) (use assms(2) in \<open>auto dest: extract_label_spans\<close>)
qed

lemma starts_le_mono: "starts_le i d \<Longrightarrow> i \<le> j \<Longrightarrow> starts_le j d"
  by (auto simp: starts_le_def)

lemma extract_range_spans:
  assumes "for_each extract_position [a..<b] st = Inr st'" and "b \<le> n"
    and "spans_ok n True (mention_dict st)" and "starts_le a (mention_dict st)"
  shows "spans_ok n True (mention_dict st')"
  using assms
proof (induction "b - a" arbitrary: a st)
  case 0
  then show ?case by simp
next
  case (Suc d)
  then have lt: "a < b" by simp
  then have list: "[a..<b] = a # [Suc a..<b]" by (simp add: upt_conv_Cons)
  from Suc.prems(1) obtain t where t: "extract_position a st = Inr t"
    and rest: "for_each extract_position [Suc a..<b] t = Inr st'"
    unfolding list by (auto split: sum.splits)
  have "a < n" using lt Suc.prems(2) by simp
  from extract_position_spans [OF t this] Suc.prems(3,4)
  have "spans_ok n True (mention_dict t)" and "starts_le (Suc a) (mention_dict t)"
    by (auto intro: starts_le_mono)
  moreover have "d = b - Suc a" using Suc.hyps(2) by simp
  ultimately show ?case using Suc.hyps(1) rest Suc.prems(2) by blast
qed

lemma extract_mentions_spans:
  assumes "extract_mentions st = Inr st'" and "mention_dict st = []"
  shows "spans_ok (length (labels st)) True (mention_dict st')"
proof -
  have "for_each extract_position [0..<length (labels st)] st = Inr st'"
    using assms by (simp add: extract_mentions_def)
  then show ?thesis
    by (rule extract_range_spans) (simp_all add: assms(2) spans_ok_def starts_le_def)
qed


subsection \<open>Clusters cover the endpoints\<close>

lemma scan_clusters_Union:
  "\<Union> (set (snd (scan_clusters p cs)))
     = \<Union> (set cs) \<union> (if fst (scan_clusters p cs) then pair_set p else {})"
  by (induction cs) (auto split: prod.splits)

lemma add_pair_Union: "\<Union> (set (add_pair p cs)) = \<Union> (set cs) \<union> pair_set p"
proof (cases "scan_clusters p cs")
  case (Pair matched cl)
  with scan_clusters_Union [of p cs] show ?thesis
    by (auto simp: add_pair_def)
qed

lemma fold_add_pair_Union:
  "\<Union> (set (fold add_pair ps cs)) = \<Union> (set cs) \<union> endpoints ps"
  by (induction ps arbitrary: cs) (auto simp: add_pair_Union endpoints_def pair_set_def)

lemma group_Union: "\<Union> (set (group_mentions_into_clusters ps)) = endpoints ps"
  by (cases ps)
    (auto simp: group_mentions_into_clusters_def fold_add_pair_Union endpoints_def pair_set_def)

lemma find_cluster_None_iff: "(find_cluster k cs i = None) = (k \<notin> \<Union> (set cs))"
  by (induction cs arbitrary: i) auto

lemma endpoint_has_cluster:
  "k \<in> endpoints ps \<Longrightarrow> find_cluster k (group_mentions_into_clusters ps) 0 \<noteq> None"
  by (simp add: find_cluster_None_iff group_Union)


subsection \<open>Appositive fusion\<close>

lemma dict_keys_dict_set_present:
  "k \<in> dict_keys d \<Longrightarrow> dict_keys (dict_set k v d) = dict_keys d"
  by (auto simp: dict_keys_dict_set)

lemma fuse_appositive_facts:
  assumes "fuse_appositive mp st = Inr st'"
  shows "same_settings st st' \<and> clusters st' = clusters st
         \<and> dict_keys (mention_dict st') = dict_keys (mention_dict st)
         \<and> (\<exists>s. appos_mentions st' = insert s (appos_mentions st))
         \<and> (\<not> use_appos st \<longrightarrow> mention_dict st' = mention_dict st)
         \<and> (spans_ok (length (tokens st)) False (mention_dict st)
              \<longrightarrow> spans_ok (length (tokens st)) False (mention_dict st'))"
proof -
  from assms obtain second where second: "py_index mp 1 = Inr second"
    by (auto simp: fuse_appositive_def split: sum.splits)
  define st1 where "st1 = st\<lparr>appos_mentions := insert second (appos_mentions st)\<rparr>"
  show ?thesis
  proof (cases "use_appos st")
    case False
    then have "st' = st1"
      using assms second by (simp add: fuse_appositive_def st1_def)
    then show ?thesis using False
      by (auto simp: st1_def same_settings_def)
  next
    case True
    from assms second True obtain head tail e where
      head: "dict_get (mention_dict st) (hd mp) = Inr head"
      and tail: "dict_get (mention_dict st) (last mp) = Inr tail"
      and e: "m_end tail = Some e"
      by (auto simp: fuse_appositive_def Let_def split: sum.splits option.splits)
    define fused where "fused = slice (tokens st) (m_start head) (e + 1)"
    define head1 where "head1 = head\<lparr>m_end := Some e, m_text := Some fused\<rparr>"
    define head2 where "head2 = head1\<lparr>m_end := Some (e + 1),
        m_text := Some (slice (tokens st) (m_start head) (e + 2))\<rparr>"
    define md1 where "md1 = dict_set (hd mp) head1 (mention_dict st)"
    define md2 where "md2 = dict_set (hd mp) head2 md1"
    have key: "hd mp \<in> dict_keys (mention_dict st)"
      using head by (rule dict_get_key)
    have keys1: "dict_keys md1 = dict_keys (mention_dict st)"
      and keys2: "dict_keys md2 = dict_keys (mention_dict st)"
      using key by (auto simp: md1_def md2_def dict_keys_dict_set)
    have cases: "st' = st1\<lparr>mention_dict := md1\<rparr>
        \<or> (st' = st1\<lparr>mention_dict := md2\<rparr> \<and> e + 1 < length (tokens st))"
      using assms second True head tail e
      by (auto simp: fuse_appositive_def Let_def st1_def md1_def md2_def head1_def head2_def
          fused_def py_index_def split: if_splits)
    have spans: "spans_ok (length (tokens st)) False md1
        \<and> (e + 1 < length (tokens st) \<longrightarrow> spans_ok (length (tokens st)) False md2)"
      if ok: "spans_ok (length (tokens st)) False (mention_dict st)"
    proof -
      have "span_ok (length (tokens st)) False tail"
        using ok tail by (rule spans_ok_get)
      then have "e < length (tokens st)"
        using e by (simp add: span_ok_def)
      then have h1: "span_ok (length (tokens st)) False head1"
        by (simp add: span_ok_def head1_def)
      have h2: "e + 1 < length (tokens st) \<Longrightarrow> span_ok (length (tokens st)) False head2"
        by (simp add: span_ok_def head2_def)
      have m1: "spans_ok (length (tokens st)) False md1"
        unfolding md1_def using ok h1 by (rule spans_ok_dict_set)
      then show ?thesis
        unfolding md2_def using h2 by (auto intro: spans_ok_dict_set)
    qed
    from cases show ?thesis
    proof
      assume "st' = st1\<lparr>mention_dict := md1\<rparr>"
      then show ?thesis using True keys1 spans
        by (auto simp: st1_def same_settings_def)
    next
      assume "st' = st1\<lparr>mention_dict := md2\<rparr> \<and> e + 1 < length (tokens st)"
      then show ?thesis using True keys2 spans
        by (auto simp: st1_def same_settings_def)
    qed
  qed
qed

lemma handle_appositives_facts:
  assumes "handle_appositives aps st = Inr st'"
  shows "same_settings st st' \<and> clusters st' = clusters st
         \<and> dict_keys (mention_dict st') = dict_keys (mention_dict st)
         \<and> (finite (appos_mentions st) \<longrightarrow> finite (appos_mentions st'))
         \<and> (\<not> use_appos st \<longrightarrow> mention_dict st' = mention_dict st)
         \<and> (spans_ok (length (tokens st)) False (mention_dict st)
              \<longrightarrow> spans_ok (length (tokens st)) False (mention_dict st'))"
proof -
  let ?P = "\<lambda>t. same_settings st t \<and> clusters t = clusters st
         \<and> dict_keys (mention_dict t) = dict_keys (mention_dict st)
         \<and> (finite (appos_mentions st) \<longrightarrow> finite (appos_mentions t))
         \<and> (\<not> use_appos st \<longrightarrow> mention_dict t = mention_dict st)
         \<and> (spans_ok (length (tokens st)) False (mention_dict st)
              \<longrightarrow> spans_ok (length (tokens st)) False (mention_dict t))"
  have run: "for_each fuse_appositive
       (map sorted_list_of_set (group_mentions_into_clusters aps)) st = Inr st'"
    using assms by (simp add: handle_appositives_def)
  have start: "?P st" by simp
  from run start show "?P st'"
  proof (rule for_each_invariant)
    fix x t t'
    assume t: "?P t" and step: "fuse_appositive x t = Inr t'"
    from fuse_appositive_facts [OF step] t show "?P t'"
      by (auto simp: same_settings_def)
  qed
qed

subsection \<open>Loops that pop mentions\<close>

lemma set_filter_subset: "set (filter P d) \<subseteq> set d"
  by auto

lemma dispose_loop_facts:
  "for_each (dispose_appos mps) xs st = Inr st' \<Longrightarrow>
     same_settings st st' \<and> appos_mentions st' = appos_mentions st
     \<and> clusters st' = clusters st
     \<and> set (mention_dict st') \<subseteq> set (mention_dict st)
     \<and> dict_keys (mention_dict st') = dict_keys (mention_dict st) - (set xs - endpoints mps)"
proof (induction xs arbitrary: st)
  case Nil
  then show ?case by simp
next
  case (Cons x xs)
  from Cons.prems obtain t where t: "dispose_appos mps x st = Inr t"
    and rest: "for_each (dispose_appos mps) xs t = Inr st'"
    by (auto split: sum.splits)
  have step: "same_settings st t \<and> appos_mentions t = appos_mentions st
      \<and> clusters t = clusters st
      \<and> set (mention_dict t) \<subseteq> set (mention_dict st)
      \<and> dict_keys (mention_dict t) = dict_keys (mention_dict st) - ({x} - endpoints mps)"
    using t
    by (auto simp: dispose_appos_def dict_keys_filter same_settings_def
        split: if_splits sum.splits dest!: dict_pop_Inr)
  from Cons.IH [OF rest] step show ?case
    by (auto intro: same_settings_trans)
qed

lemma pop_loop_facts:
  "for_each pop_mention xs st = Inr st' \<Longrightarrow>
     same_settings st st' \<and> appos_mentions st' = appos_mentions st
     \<and> clusters st' = clusters st
     \<and> set (mention_dict st') \<subseteq> set (mention_dict st)
     \<and> dict_keys (mention_dict st') = dict_keys (mention_dict st) - set xs"
proof (induction xs arbitrary: st)
  case Nil
  then show ?case by simp
next
  case (Cons x xs)
  from Cons.prems obtain t where t: "pop_mention x st = Inr t"
    and rest: "for_each pop_mention xs t = Inr st'"
    by (auto split: sum.splits)
  have step: "same_settings st t \<and> appos_mentions t = appos_mentions st
      \<and> clusters t = clusters st
      \<and> set (mention_dict t) \<subseteq> set (mention_dict st)
      \<and> dict_keys (mention_dict t) = dict_keys (mention_dict st) - {x}"
    using t
    by (auto simp: pop_mention_def dict_keys_filter same_settings_def
        split: sum.splits dest!: dict_pop_Inr)
  from Cons.IH [OF rest] step show ?case
    by (auto intro: same_settings_trans)
qed

lemma remove_loop_facts:
  "for_each remove_mention xs st = Inr st' \<Longrightarrow>
     same_settings st st' \<and> appos_mentions st' = appos_mentions st
     \<and> set (mention_dict st') \<subseteq> set (mention_dict st)
     \<and> dict_keys (mention_dict st') = dict_keys (mention_dict st) - set xs"
proof (induction xs arbitrary: st)
  case Nil
  then show ?case by simp
next
  case (Cons x xs)
  from Cons.prems obtain t where t: "remove_mention x st = Inr t"
    and rest: "for_each remove_mention xs t = Inr st'"
    by (auto split: sum.splits)
  have step: "same_settings st t \<and> appos_mentions t = appos_mentions st
      \<and> set (mention_dict t) \<subseteq> set (mention_dict st)
      \<and> dict_keys (mention_dict t) = dict_keys (mention_dict st) - {x}"
    using t
    by (auto simp: remove_mention_def dict_keys_filter same_settings_def
        split: sum.splits dest!: dict_pop_Inr)
  from Cons.IH [OF rest] step show ?case
    by (auto intro: same_settings_trans)
qed

subsection \<open>Cluster assignment\<close>

lemma fold_assign_mention:
  "fold (assign_mention cs) items (dn, sing)
     = (dn @ map (relabel cs) items,
        sing @ map fst (filter (\<lambda>item. find_cluster (fst item) cs 0 = None) items))"
  by (induction items arbitrary: dn sing)
    (auto simp: assign_mention_def relabel_def split: option.splits)

lemma fst_relabel [simp]: "fst (relabel cs item) = fst item"
  by (simp add: relabel_def split: option.splits)

lemma span_ok_relabel [simp]: "span_ok n b (snd (relabel cs item)) = span_ok n b (snd item)"
  by (simp add: relabel_def span_ok_def split: option.splits)

lemma dict_keys_map_relabel [simp]: "dict_keys (map (relabel cs) d) = dict_keys d"
  by (simp add: dict_keys_def image_image)

lemma spans_ok_map_relabel [simp]: "spans_ok n b (map (relabel cs) d) = spans_ok n b d"
  by (simp add: spans_ok_def)

lemma assign_facts:
  assumes "assign_mentions_to_clusters st = Inr st'"
  shows "same_settings st st' \<and> appos_mentions st' = appos_mentions st
     \<and> clusters st' = clusters st
     \<and> set (mention_dict st') \<subseteq> set (map (relabel (clusters st)) (mention_dict st))
     \<and> dict_keys (mention_dict st')
         = dict_keys (mention_dict st)
           - (if remove_singletons st
              then {k. find_cluster k (clusters st) 0 = None} else {})"
proof -
  define md where "md = map (relabel (clusters st)) (mention_dict st)"
  define singletons where "singletons
     = map fst (filter (\<lambda>item. find_cluster (fst item) (clusters st) 0 = None) (mention_dict st))"
  define st1 where "st1 = st\<lparr>mention_dict := md,
       stats := (stats st)\<lparr>singleton_count := singleton_count (stats st) + length singletons\<rparr>\<rparr>"
  have fold: "fold (assign_mention (clusters st)) (mention_dict st) ([], []) = (md, singletons)"
    by (simp add: fold_assign_mention md_def singletons_def)
  have st1: "same_settings st st1" "appos_mentions st1 = appos_mentions st"
    "clusters st1 = clusters st" "mention_dict st1 = md"
    by (simp_all add: st1_def same_settings_def)
  have sing: "dict_keys md - set singletons
                = dict_keys (mention_dict st) - {k. find_cluster k (clusters st) 0 = None}"
    unfolding md_def singletons_def dict_keys_map_relabel
    by (force simp: dict_keys_def)
  show ?thesis
  proof (cases "remove_singletons st")
    case False
    then have "st' = st1"
      using assms fold by (simp add: assign_mentions_to_clusters_def st1_def)
    then show ?thesis using st1 False by (simp add: md_def)
  next
    case True
    then have "for_each pop_mention singletons st1 = Inr st'"
      using assms fold by (simp add: assign_mentions_to_clusters_def st1_def)
    from pop_loop_facts [OF this] st1 True sing
    show ?thesis
      by (auto simp: md_def intro: same_settings_trans)
  qed
qed

subsection \<open>The whole of \<open>get_coref_info\<close>\<close>

lemma spans_ok_handle:
  assumes "handle_appositives aps st = Inr st'"
    and "spans_ok (length (tokens st)) (\<not> use_appos st) (mention_dict st)"
  shows "spans_ok (length (tokens st)) (\<not> use_appos st) (mention_dict st')"
  using handle_appositives_facts [OF assms(1)] assms(2) by (cases "use_appos st") auto

lemma extract_coreference_links_facts:
  assumes scan: "scan_links st = Inr (mps, aps, st1)"
    and run: "extract_coreference_links st = Inr st'"
    and fin: "finite (appos_mentions st)"
  shows "same_settings st1 st'"
    and "use_appos st' = use_appos st \<and> use_aliases st' = use_aliases st
         \<and> use_exappos st' = use_exappos st \<and> remove_singletons st' = remove_singletons st
         \<and> tokens st' = tokens st"
    and "clusters st' = group_mentions_into_clusters mps"
    and "dict_keys (mention_dict st')
           = dict_keys (mention_dict st) - (appos_mentions st' - endpoints mps)"
    and "spans_ok (length (tokens st)) (\<not> use_appos st) (mention_dict st)
           \<Longrightarrow> spans_ok (length (tokens st)) (\<not> use_appos st) (mention_dict st')"
proof -
  from scan_links_effect [OF scan]
  have eff: "use_aliases st1 = use_aliases st" "use_exappos st1 = use_exappos st"
    "use_appos st1 = use_appos st" "remove_singletons st1 = remove_singletons st"
    "mention_dict st1 = mention_dict st" "tokens st1 = tokens st"
    "appos_mentions st1 = appos_mentions st"
    by (simp_all add: link_effect_def)
  from run scan obtain st2 st3 where
    h: "handle_appositives aps st1 = Inr st2"
    and d: "for_each (dispose_appos mps) (sorted_list_of_set (appos_mentions st2)) st2 = Inr st3"
    and st': "st' = st3\<lparr>clusters := group_mentions_into_clusters mps\<rparr>"
    by (auto simp: extract_coreference_links_def split: sum.splits)
  note hf = handle_appositives_facts [OF h]
  have fin2: "finite (appos_mentions st2)"
    using hf fin eff by simp
  note df = dispose_loop_facts [OF d]
  have f3: "same_settings st2 st3" "appos_mentions st3 = appos_mentions st2"
    using df by simp_all
  show "same_settings st1 st'"
    using hf f3 by (auto simp: st' same_settings_def)
  then show "use_appos st' = use_appos st \<and> use_aliases st' = use_aliases st
         \<and> use_exappos st' = use_exappos st \<and> remove_singletons st' = remove_singletons st
         \<and> tokens st' = tokens st"
    using eff by (simp add: same_settings_def)
  show "clusters st' = group_mentions_into_clusters mps"
    by (simp add: st')
  show "dict_keys (mention_dict st')
           = dict_keys (mention_dict st) - (appos_mentions st' - endpoints mps)"
    using df hf f3 fin2 eff by (simp add: st')
  show "spans_ok (length (tokens st)) (\<not> use_appos st) (mention_dict st')"
    if "spans_ok (length (tokens st)) (\<not> use_appos st) (mention_dict st)"
  proof -
    have "spans_ok (length (tokens st1)) (\<not> use_appos st1) (mention_dict st1)"
      using that by (simp add: eff)
    with h have "spans_ok (length (tokens st1)) (\<not> use_appos st1) (mention_dict st2)"
      by (rule spans_ok_handle)
    then have s2: "spans_ok (length (tokens st)) (\<not> use_appos st) (mention_dict st2)"
      by (simp add: eff)
    have "set (mention_dict st3) \<subseteq> set (mention_dict st2)"
      using df by simp
    with s2 have "spans_ok (length (tokens st)) (\<not> use_appos st) (mention_dict st3)"
      by (rule spans_ok_subset)
    then show ?thesis by (simp add: st')
  qed
qed

lemma remove_aliases_facts:
  assumes "remove_aliases st = Inr st'"
  shows "same_settings st st' \<and> appos_mentions st' = appos_mentions st
     \<and> set (mention_dict st') \<subseteq> set (mention_dict st)
     \<and> dict_keys (mention_dict st') = dict_keys (mention_dict st) - set (aliases st)"
proof (cases "aliases st")
  case Nil
  then show ?thesis using assms by (simp add: remove_aliases_def)
next
  case (Cons a as)
  then have "for_each remove_mention (aliases st) st = Inr st'"
    using assms by (simp add: remove_aliases_def)
  then show ?thesis by (rule remove_loop_facts)
qed

lemma remove_exappos_facts:
  assumes "remove_exappos st = Inr st'"
  shows "same_settings st st' \<and> appos_mentions st' = appos_mentions st
     \<and> set (mention_dict st') \<subseteq> set (mention_dict st)
     \<and> dict_keys (mention_dict st') = dict_keys (mention_dict st) - set (exappos_mentions st)"
proof (cases "exappos_mentions st")
  case Nil
  then show ?thesis using assms by (simp add: remove_exappos_def)
next
  case (Cons a as)
  then have "for_each remove_mention (exappos_mentions st) st = Inr st'"
    using assms by (simp add: remove_exappos_def)
  then show ?thesis by (rule remove_loop_facts)
qed

lemma optional_removal_facts:
  assumes "(if \<not> use_aliases st then remove_aliases st else Inr st) = Inr st1"
    and "(if \<not> use_exappos st1 then remove_exappos st1 else Inr st1) = Inr st'"
  shows "same_settings st st' \<and> appos_mentions st' = appos_mentions st
     \<and> set (mention_dict st') \<subseteq> set (mention_dict st)
     \<and> dict_keys (mention_dict st')
         = dict_keys (mention_dict st)
           - (if use_aliases st then {} else set (aliases st))
           - (if use_exappos st then {} else set (exappos_mentions st))"
proof -
  have a: "same_settings st st1 \<and> appos_mentions st1 = appos_mentions st
     \<and> set (mention_dict st1) \<subseteq> set (mention_dict st)
     \<and> dict_keys (mention_dict st1)
         = dict_keys (mention_dict st) - (if use_aliases st then {} else set (aliases st))"
    using assms(1) remove_aliases_facts [of st st1] by (auto split: if_splits)
  have b: "same_settings st1 st' \<and> appos_mentions st' = appos_mentions st1
     \<and> set (mention_dict st') \<subseteq> set (mention_dict st1)
     \<and> dict_keys (mention_dict st')
         = dict_keys (mention_dict st1)
           - (if use_exappos st1 then {} else set (exappos_mentions st1))"
    using assms(2) remove_exappos_facts [of st1 st'] by (auto split: if_splits)
  from a b show ?thesis
    by (auto simp: same_settings_def)
qed

lemma get_coref_info_facts:
  assumes ex: "extract_mentions st = Inr st1"
    and scan: "scan_links st1 = Inr (mps, aps, st2)"
    and run: "get_coref_info st = Inr st'"
    and fin: "finite (appos_mentions st)"
  shows "tokens st' = tokens st"
    and "dict_keys (mention_dict st')
           = dict_keys (mention_dict st1) - (appos_mentions st' - endpoints mps)
             - (if remove_singletons st then {k. k \<notin> endpoints mps} else {})
             - (if use_aliases st then {} else set (aliases st'))
             - (if use_exappos st then {} else set (exappos_mentions st'))"
    and "mention_dict st = [] \<Longrightarrow> length (labels st) \<le> length (tokens st)
           \<Longrightarrow> spans_ok (length (tokens st)) (\<not> use_appos st) (mention_dict st')"
proof -
  from run ex obtain st3 st4 st5 where
    links: "extract_coreference_links st1 = Inr st3"
    and assign: "assign_mentions_to_clusters st3 = Inr st4"
    and r1: "(if \<not> use_aliases st4 then remove_aliases st4 else Inr st4) = Inr st5"
    and r2: "(if \<not> use_exappos st5 then remove_exappos st5 else Inr st5) = Inr st'"
    by (auto simp: get_coref_info_def split: sum.splits)
  note f1 = frame_fields [where t = st1 and st = st and md = "mention_dict st1",
      OF extract_mentions_frame [OF ex]]
  have fin1: "finite (appos_mentions st1)" using f1 fin by simp
  note lf = extract_coreference_links_facts [OF scan links fin1]
  note af = assign_facts [OF assign]
  note rf = optional_removal_facts [OF r1 r2]
  have flags3: "use_appos st3 = use_appos st" "use_aliases st3 = use_aliases st"
    "use_exappos st3 = use_exappos st" "remove_singletons st3 = remove_singletons st"
    "tokens st3 = tokens st"
    using lf(2) f1(1) by (simp_all add: same_settings_def)
  have s34: "same_settings st3 st4" and s4': "same_settings st4 st'"
    using af rf by simp_all
  show "tokens st' = tokens st"
    using flags3 s34 s4' by (simp add: same_settings_def)
  have appos: "appos_mentions st' = appos_mentions st3"
    using af rf by simp
  have lists: "aliases st4 = aliases st'" "exappos_mentions st4 = exappos_mentions st'"
    "use_aliases st4 = use_aliases st" "use_exappos st4 = use_exappos st"
    using s34 s4' flags3 by (simp_all add: same_settings_def)
  have singles: "{k. find_cluster k (clusters st3) 0 = None} = {k. k \<notin> endpoints mps}"
    by (simp add: lf(3) find_cluster_None_iff group_Union)
  show "dict_keys (mention_dict st')
           = dict_keys (mention_dict st1) - (appos_mentions st' - endpoints mps)
             - (if remove_singletons st then {k. k \<notin> endpoints mps} else {})
             - (if use_aliases st then {} else set (aliases st'))
             - (if use_exappos st then {} else set (exappos_mentions st'))"
    using rf af lf(4) by (simp add: appos lists flags3 singles)
  show "spans_ok (length (tokens st)) (\<not> use_appos st) (mention_dict st')"
    if empty: "mention_dict st = []" and len: "length (labels st) \<le> length (tokens st)"
  proof -
    have "spans_ok (length (labels st)) True (mention_dict st1)"
      using ex empty by (rule extract_mentions_spans)
    then have "spans_ok (length (tokens st)) (\<not> use_appos st) (mention_dict st1)"
      using len by (rule spans_ok_weaken)
    then have "spans_ok (length (tokens st1)) (\<not> use_appos st1) (mention_dict st1)"
      using f1(1) by (simp add: same_settings_def)
    then have "spans_ok (length (tokens st1)) (\<not> use_appos st1) (mention_dict st3)"
      by (rule lf(5))
    then have "spans_ok (length (tokens st)) (\<not> use_appos st)
                 (map (relabel (clusters st3)) (mention_dict st3))"
      using f1(1) by (simp add: same_settings_def)
    moreover have "set (mention_dict st4) \<subseteq> set (map (relabel (clusters st3)) (mention_dict st3))"
      using af by blast
    ultimately have "spans_ok (length (tokens st)) (\<not> use_appos st) (mention_dict st4)"
      by (rule spans_ok_subset)
    moreover have "set (mention_dict st') \<subseteq> set (mention_dict st4)"
      using rf by blast
    ultimately show ?thesis
      by (rule spans_ok_subset)
  qed
qed

subsection \<open>Reading and writing a paragraph\<close>

lemma read_line_lengths:
  assumes "read_line line (toks, labs) = Inr (toks', labs')" and "length toks = length labs"
  shows "length toks' = length labs'"
  using assms by (auto simp: read_line_def Let_def split: if_splits sum.splits)

lemma read_lines_lengths:
  "for_each read_line lines acc = Inr acc' \<Longrightarrow> length (fst acc) = length (snd acc)
     \<Longrightarrow> length (fst acc') = length (snd acc')"
proof (induction lines arbitrary: acc)
  case Nil
  then show ?case by simp
next
  case (Cons l ls)
  from Cons.prems(1) obtain mid where mid: "read_line l acc = Inr mid"
    and rest: "for_each read_line ls mid = Inr acc'"
    by (auto split: sum.splits)
  have "length (fst mid) = length (snd mid)"
    using read_line_lengths [of l "fst acc" "snd acc" "fst mid" "snd mid"] mid Cons.prems(2)
    by simp
  with rest show ?case by (rule Cons.IH)
qed

lemma get_paragraph_data_facts:
  assumes "get_paragraph_data paragraph st = Inr st'"
  shows "length (tokens st') = length (labels st') \<and> mention_dict st' = mention_dict st
         \<and> appos_mentions st' = appos_mentions st \<and> use_appos st' = use_appos st"
proof -
  from assms obtain toks labs where
    run: "for_each read_line (tl (split_chr CHR 0x0A (strip_with is_space paragraph))) ([], [])
            = Inr (toks, labs)"
    and st': "st' = st\<lparr>paragraph_text :=
                 drop 6 (hd (split_chr CHR 0x0A (strip_with is_space paragraph))),
               tokens := toks, labels := labs\<rparr>"
    by (auto simp: get_paragraph_data_def Let_def split: sum.splits)
  from read_lines_lengths [OF run] have "length toks = length labs" by simp
  then show ?thesis by (simp add: st')
qed

lemma count_types_facts:
  "for_each count_mention_type ms st = Inr st' \<Longrightarrow>
     (\<forall>m \<in> set ms. m_type m \<noteq> None) \<and> mention_dict st' = mention_dict st
     \<and> appos_mentions st' = appos_mentions st \<and> use_appos st' = use_appos st"
proof (induction ms arbitrary: st)
  case Nil
  then show ?case by simp
next
  case (Cons m ms)
  from Cons.prems obtain t where t: "count_mention_type m st = Inr t"
    and rest: "for_each count_mention_type ms t = Inr st'"
    by (auto split: sum.splits)
  have "m_type m \<noteq> None \<and> mention_dict t = mention_dict st
     \<and> appos_mentions t = appos_mentions st \<and> use_appos t = use_appos st"
    using t by (auto simp: count_mention_type_def split: option.splits)
  with Cons.IH [OF rest] show ?case by simp
qed

lemma process_paragraph_facts:
  assumes run: "process_paragraph paragraph (out, st) = Inr (out', st')"
    and empty: "mention_dict st = []" and fin: "finite (appos_mentions st)"
  shows "mention_dict st' = [] \<and> finite (appos_mentions st') \<and> use_appos st' = use_appos st
     \<and> (\<exists>r. out' = out @ [r] \<and> spans_valid (use_appos st) r)"
proof -
  from run obtain st1 st2 st4 where
    load: "get_paragraph_data paragraph st = Inr st1"
    and info: "get_coref_info st1 = Inr st2"
    and acc: "accumulate_mention_type_counts
                (st2\<lparr>stats := (stats st2)
                    \<lparr>paragraph_count := paragraph_count (stats st2) + 1,
                     token_count := token_count (stats st2) + length (tokens st2),
                     mention_count := mention_count (stats st2) + length (mention_dict st2),
                     cluster_count := cluster_count (stats st2) + length (clusters st2)\<rparr>\<rparr>)
              = Inr st4"
    and out': "out' = out @ [\<lparr>pd_text = paragraph_text st2, pd_tokens = tokens st2,
                              pd_corefs = map snd (mention_dict st2)\<rparr>]"
    and st': "st' = reset st4"
    by (auto simp: process_paragraph_def Let_def split: sum.splits)
  note lf = get_paragraph_data_facts [OF load]
  from info obtain s1 where ex: "extract_mentions st1 = Inr s1"
    by (auto simp: get_coref_info_def split: sum.splits)
  from info ex obtain mps aps s2 where scan: "scan_links s1 = Inr (mps, aps, s2)"
    by (auto simp: get_coref_info_def extract_coreference_links_def split: sum.splits)
  have fin1: "finite (appos_mentions st1)" using lf fin by simp
  have spans: "spans_ok (length (tokens st1)) (\<not> use_appos st1) (mention_dict st2)"
    using get_coref_info_facts(3) [OF ex scan info fin1] lf empty by simp
  have toks: "tokens st2 = tokens st1"
    using get_coref_info_facts(1) [OF ex scan info fin1] .
  have types: "\<forall>m \<in> set (map snd (mention_dict st2)). m_type m \<noteq> None"
    and flag4: "use_appos st4 = use_appos st2"
    using count_types_facts [OF acc [unfolded accumulate_mention_type_counts_def]]
    by simp_all
  have valid: "spans_valid (use_appos st)
      \<lparr>pd_text = paragraph_text st2, pd_tokens = tokens st2,
        pd_corefs = map snd (mention_dict st2)\<rparr>"
    unfolding spans_valid_def
  proof
    fix m
    assume "m \<in> set (pd_corefs \<lparr>pd_text = paragraph_text st2, pd_tokens = tokens st2,
        pd_corefs = map snd (mention_dict st2)\<rparr>)"
    then have m: "m \<in> set (map snd (mention_dict st2))" by simp
    then have "span_ok (length (tokens st1)) (\<not> use_appos st1) m"
      using spans by (auto simp: spans_ok_def)
    moreover have "m_type m \<noteq> None" using types m by blast
    ultimately show "case m_end m of None \<Rightarrow> False
        | Some e \<Rightarrow> e < length (pd_tokens \<lparr>pd_text = paragraph_text st2, pd_tokens = tokens st2,
              pd_corefs = map snd (mention_dict st2)\<rparr>)
            \<and> (\<not> use_appos st \<longrightarrow> m_start m \<le> e)"
      using lf by (auto simp: span_ok_def toks split: option.splits)
  qed
  have flag2: "use_appos st2 = use_appos st1"
  proof -
    from info ex obtain s3 s4 s5 where
      links: "extract_coreference_links s1 = Inr s3"
      and assign: "assign_mentions_to_clusters s3 = Inr s4"
      and r1: "(if \<not> use_aliases s4 then remove_aliases s4 else Inr s4) = Inr s5"
      and r2: "(if \<not> use_exappos s5 then remove_exappos s5 else Inr s5) = Inr st2"
      by (auto simp: get_coref_info_def split: sum.splits)
    have "use_appos s1 = use_appos st1"
      using frame_fields(1) [where t = s1 and st = st1 and md = "mention_dict s1",
          OF extract_mentions_frame [OF ex]]
      by (simp add: same_settings_def)
    moreover have "finite (appos_mentions s1)"
      using frame_fields(2) [where t = s1 and st = st1 and md = "mention_dict s1",
          OF extract_mentions_frame [OF ex]] fin1 by simp
    then have "use_appos s3 = use_appos s1"
      using extract_coreference_links_facts(2) [OF scan links] by simp
    moreover have "use_appos s4 = use_appos s3"
      using assign_facts [OF assign] by (simp add: same_settings_def)
    moreover have "use_appos st2 = use_appos s4"
      using optional_removal_facts [OF r1 r2] by (simp add: same_settings_def)
    ultimately show ?thesis by simp
  qed
  show ?thesis
    using valid out' flag2 flag4 lf by (simp add: st' reset_def)
qed

lemma convert_loop_facts:
  "for_each process_paragraph paragraphs (out, st) = Inr (out', st') \<Longrightarrow>
   mention_dict st = [] \<Longrightarrow> finite (appos_mentions st) \<Longrightarrow>
   \<forall>r \<in> set out. spans_valid (use_appos st) r \<Longrightarrow>
   \<forall>r \<in> set out'. spans_valid (use_appos st) r"
proof (induction paragraphs arbitrary: out st)
  case Nil
  then show ?case by simp
next
  case (Cons p ps)
  from Cons.prems(1) obtain mid where mid: "process_paragraph p (out, st) = Inr mid"
    and rest: "for_each process_paragraph ps mid = Inr (out', st')"
    by (auto split: sum.splits)
  obtain out1 st1 where mid_eq: "mid = (out1, st1)" by (cases mid)
  note pf = process_paragraph_facts [OF mid [unfolded mid_eq] Cons.prems(2,3)]
  have "\<forall>r \<in> set out1. spans_valid (use_appos st1) r"
    using pf Cons.prems(4) by auto
  with Cons.IH [OF rest [unfolded mid_eq]] pf show ?case by simp
qed

section \<open>The cluster builder follows the specified algorithm\<close>

lemma meets_iff: "(pair_set p \<inter> c \<noteq> {}) = (\<not> shares_none p c)"
  by (auto simp: pair_set_def shares_none_def)

lemma union_pair_set: "c \<union> pair_set p = insert (fst p) (insert (snd p) c)"
  by (auto simp: pair_set_def)

lemma spec_absorb_if:
  "spec_absorb cs p =
     (if list_all (shares_none p) cs then cs @ [{fst p, snd p}]
      else takeWhile (shares_none p) cs
           @ insert (fst p) (insert (snd p) (hd (dropWhile (shares_none p) cs)))
           # tl (dropWhile (shares_none p) cs))"
proof (cases "dropWhile (shares_none p) cs")
  case Nil
  then have "list_all (shares_none p) cs"
    by (simp add: list_all_iff)
  then show ?thesis
    by (simp add: spec_absorb_def Nil)
next
  case (Cons c later)
  then have "\<not> list_all (shares_none p) cs"
    by (metis dropWhile_eq_Nil_conv list.distinct(1) list_all_iff)
  then show ?thesis
    by (simp add: spec_absorb_def Cons)
qed

lemma scan_clusters_first_match:
  "scan_clusters p cs =
     (if list_all (shares_none p) cs then (False, cs)
      else (True, takeWhile (shares_none p) cs
           @ insert (fst p) (insert (snd p) (hd (dropWhile (shares_none p) cs)))
           # tl (dropWhile (shares_none p) cs)))"
  by (induction cs) (simp_all add: meets_iff union_pair_set)

lemma add_pair_spec_absorb: "add_pair p cs = spec_absorb cs p"
  by (simp add: add_pair_def spec_absorb_if scan_clusters_first_match pair_set_def)

lemma fold_add_pair_foldl: "fold add_pair ps cs = foldl spec_absorb cs ps"
  by (induction ps arbitrary: cs) (simp_all add: add_pair_spec_absorb)

lemma group_is_foldl: "group_mentions_into_clusters ps = foldl spec_absorb [] ps"
  by (cases ps)
    (simp_all add: group_mentions_into_clusters_def fold_add_pair_foldl spec_absorb_def
      pair_set_def)

lemma length_spec_absorb: "length cs \<le> length (spec_absorb cs p)"
proof (cases "list_all (shares_none p) cs")
  case True
  then show ?thesis by (simp add: spec_absorb_if)
next
  case False
  have "length cs = length (takeWhile (shares_none p) cs) + length (dropWhile (shares_none p) cs)"
    by (metis length_append takeWhile_dropWhile_id)
  moreover have "dropWhile (shares_none p) cs \<noteq> []"
    using False by (simp add: list_all_iff)
  ultimately show ?thesis using False
    by (simp add: spec_absorb_if)
qed

text \<open>
  Claim C2. For every list of mention pairs the cluster builder of the source returns
  the cluster list of the specified algorithm (pairs in input order, the first
  intersecting cluster takes both identifiers and the scan stops, a pair that meets no
  cluster is appended as a new one). Clusters are never merged: one more pair never
  lowers the number of clusters, and the pair (2, 3) that bridges the clusters of
  (1, 2) and (3, 4) only grows the first of them.
\<close>

theorem group_mentions_into_clusters_spec:
  "group_mentions_into_clusters mention_pairs = spec_cluster_builder mention_pairs
   \<and> length (group_mentions_into_clusters mention_pairs)
       \<le> length (group_mentions_into_clusters (mention_pairs @ [pair]))
   \<and> group_mentions_into_clusters [(1, 2), (3, 4), (2, 3)] = [{1, 2, 3}, {3, 4}]"
proof (intro conjI)
  show "group_mentions_into_clusters mention_pairs = spec_cluster_builder mention_pairs"
    by (simp add: group_is_foldl spec_cluster_builder_def)
  show "length (group_mentions_into_clusters mention_pairs)
          \<le> length (group_mentions_into_clusters (mention_pairs @ [pair]))"
    by (simp add: group_is_foldl length_spec_absorb)
  show "group_mentions_into_clusters [(1, 2), (3, 4), (2, 3)] = [{1, 2, 3}, {3, 4}]"
    by (auto simp: group_mentions_into_clusters_def add_pair_def pair_set_def)
qed

section \<open>The code at concrete inputs\<close>

text \<open>
  Claim C4 says that every member of an appositive tuple but the head goes into the
  set of bare appositives. The source stores \<open>mention_pair[1]\<close> only. With the
  relations APPOS[1_2] and APPOS[1_3] the one cluster is the tuple (1, 2, 3); the set
  holds 2 and not 3, and mention 3 stays in the output, with either value of
  \<open>use_appos\<close>.
\<close>

theorem appos_mentions_second_member_only:
  "map sorted_list_of_set (group_mentions_into_clusters [(1, 2), (1, 3)]) = [[1, 2, 3]]
   \<and> map_sum id (\<lambda>st. (appos_mentions st, map fst (mention_dict st)))
        (get_coref_info (loaded False False False False [''a'', ''b'', ''c'']
           [[''NOUN[1]''], [''NOUN[2]'', ''APPOS[1_2]''], [''NOUN[3]'', ''APPOS[1_3]'']]))
       = Inr ({2}, [1, 3])
   \<and> map_sum id (\<lambda>st. (appos_mentions st, map fst (mention_dict st)))
        (get_coref_info (loaded True False False False [''a'', ''b'', ''c'']
           [[''NOUN[1]''], [''NOUN[2]'', ''APPOS[1_2]''], [''NOUN[3]'', ''APPOS[1_3]'']]))
       = Inr ({2}, [1, 3])"
  by code_simp

text \<open>
  Claim C7 says that removing an identifier that is not in the mention set is
  tolerated. Each of the three removals of the source is a \<open>pop\<close> without default:
  a relation whose second identifier was never extracted as a mention raises
  \<open>KeyError\<close>, for an alias, for an extended appositive and for a bare appositive.
\<close>

theorem removal_of_absent_mention_raises:
  "map_sum id mention_dict
     (get_coref_info (loaded False False False False [''a''] [[''NOUN[1]'', ''ALIAS[1_2]'']]))
     = Inl KeyError
   \<and> map_sum id mention_dict
     (get_coref_info (loaded False False False False [''a''] [[''NOUN[1]'', ''EXAPPOS[1_2]'']]))
     = Inl KeyError
   \<and> map_sum id mention_dict
     (get_coref_info (loaded False False False False [''a''] [[''NOUN[1]'', ''APPOS[1_2]'']]))
     = Inl KeyError"
  by code_simp

text \<open>
  Claim C8 says that every property of the paragraph is emptied before the next
  paragraph. \<open>reset\<close> leaves \<open>_exappos_mentions\<close> as it is. With
  \<open>use_exappos\<close> off, the relation EXAPPOS[1_2] of a first paragraph removes
  mention 2 of the second paragraph, which on its own keeps both of its mentions.
\<close>

theorem reset_keeps_exappos_mentions:
  "exappos_mentions (reset st) = exappos_mentions st
   \<and> convert (new_preprocessor False False False False)
        (tsv_block ''c d'' [tsv_line ''c'' ''NOUN[1]'', tsv_line ''d'' ''NOUN[2]''])
       = Inr [\<lparr>pd_text = ''c d'', pd_tokens = [''c'', ''d''],
               pd_corefs =
                 [\<lparr>m_start = 0, m_end = Some 0, m_text = Some [''c''],
                    m_type = Some ''NOUN'', m_label = None\<rparr>,
                  \<lparr>m_start = 1, m_end = Some 1, m_text = Some [''d''],
                    m_type = Some ''NOUN'', m_label = None\<rparr>]\<rparr>]
   \<and> convert (new_preprocessor False False False False)
        (tsv_block ''a b'' [tsv_line ''a'' ''NOUN[1]'', tsv_line ''b'' ''NOUN[2]|EXAPPOS[1_2]'']
         @ [CHR 0x0A]
         @ tsv_block ''c d'' [tsv_line ''c'' ''NOUN[1]'', tsv_line ''d'' ''NOUN[2]''])
       = Inr [\<lparr>pd_text = ''a b'', pd_tokens = [''a'', ''b''],
               pd_corefs =
                 [\<lparr>m_start = 0, m_end = Some 0, m_text = Some [''a''],
                    m_type = Some ''NOUN'', m_label = Some 0\<rparr>]\<rparr>,
              \<lparr>pd_text = ''c d'', pd_tokens = [''c'', ''d''],
               pd_corefs =
                 [\<lparr>m_start = 0, m_end = Some 0, m_text = Some [''c''],
                    m_type = Some ''NOUN'', m_label = None\<rparr>]\<rparr>]"
proof (intro conjI)
  show "exappos_mentions (reset st) = exappos_mentions st"
    by (simp add: reset_def)
qed code_simp+

text \<open>
  Claim C9 says that a relation label whose payload is not two integers is skipped
  and the other labels are still processed. The source tests the number of parts
  only: IDENT[1_2_3] is skipped and the mention of the same position is kept, but
  the parts of IDENT[a_b] reach \<open>int()\<close>, which raises \<open>ValueError\<close>.
\<close>

theorem non_integer_payload_raises:
  "map_sum id (\<lambda>st. (map fst (mention_dict st), clusters st))
     (get_coref_info (loaded False False False False [''a''] [[''IDENT[1_2_3]'', ''NOUN[1]'']]))
     = Inr ([1], [])
   \<and> map_sum id (\<lambda>st. (map fst (mention_dict st), clusters st))
     (get_coref_info (loaded False False False False [''a''] [[''IDENT[a_b]'', ''NOUN[1]'']]))
     = Inl ValueError"
  by code_simp

text \<open>
  Claim C1 says that every mention of a written record has
  \<open>0 \<le> start \<le> end < len(tokens)\<close>, fused spans included. With
  \<open>use_appos\<close> on, \<open>_handle_appositives\<close> gives the head of an appositive
  tuple the end of the tuple's last member and never compares it with the head's
  start. Its docstring shows the appositive after its head and promises the text
  of the full mention. Here the appositive (mention 2, token 0) stands before its
  head (mention 1, token 1): the record that is written holds mention 1 with
  start 1, end 0 and an empty text.
\<close>

theorem fused_span_start_after_end:
  "convert (new_preprocessor True False False False)
     (tsv_block ''umur Ahmad''
        [tsv_line ''umur'' ''NOUN[2]'', tsv_line ''Ahmad'' ''PROPER[1]|APPOS[1_2]''])
   = Inr [\<lparr>pd_text = ''umur Ahmad'', pd_tokens = [''umur'', ''Ahmad''],
           pd_corefs =
             [\<lparr>m_start = 1, m_end = Some 0, m_text = Some [],
                m_type = Some ''PROPER'', m_label = None\<rparr>]\<rparr>]"
  by code_simp

section \<open>Where the code departs from the specification's words\<close>



text \<open>
  Against claim C6 as stated: with \<open>use_aliases\<close> and \<open>use_exappos\<close> on, the
  alias pair (1, 2) and the extended-appositive pair (1, 3) are found, and neither
  candidate list receives anything.
\<close>

theorem candidate_lists_empty_when_flags_on:
  "map_sum id (\<lambda>ls. (fst ls, aliases (snd (snd ls)), exappos_mentions (snd (snd ls))))
     (scan_links (loaded False True True False [''a'', ''b'', ''c'']
        [[''NOUN[1]''], [''NOUN[2]'', ''ALIAS[1_2]''], [''NOUN[3]'', ''EXAPPOS[1_3]'']]))
     = Inr ([(1, 2), (1, 3)], [], [])"
  by code_simp

section \<open>What the link scan stores\<close>

text \<open>
  Claim C6, amended. When the link scan succeeds, the alias candidate list has
  received the second identifiers of the alias pairs, in order, exactly when
  \<open>use_aliases\<close> is off, and nothing when it is on; the same holds for the
  extended-appositive candidate list and \<open>use_exappos\<close>. The appositive pairs
  are filed in one list and the pairs of every other class in the other.
\<close>

theorem candidate_lists_follow_flags:
  assumes "scan_links st = Inr (mention_pairs, appositive_pairs, st')"
  shows "aliases st' = aliases st
           @ (if use_aliases st then []
              else seconds_of_kind ''ALIAS'' (parsed_links (concat (labels st))))
       \<and> exappos_mentions st' = exappos_mentions st
           @ (if use_exappos st then []
              else seconds_of_kind ''EXAPPOS'' (parsed_links (concat (labels st))))
       \<and> mention_pairs = pairs_not_of_kind ''APPOS'' (parsed_links (concat (labels st)))
       \<and> appositive_pairs = pairs_of_kind ''APPOS'' (parsed_links (concat (labels st)))"
  using scan_links_effect [OF assms] by (simp add: link_effect_def)


theorem candidate_lists_follow_flags_witness:
  "map_sum id (\<lambda>ls. (fst ls, fst (snd ls), aliases (snd (snd ls)), exappos_mentions (snd (snd ls))))
     (scan_links (loaded False False True False [''a'', ''b'', ''c'']
        [[''NOUN[1]''], [''NOUN[2]'', ''ALIAS[1_2]''], [''NOUN[3]'', ''EXAPPOS[1_3]'']]))
     = Inr ([(1, 2), (1, 3)], [], [], [3])"
proof -
  let ?st = "loaded False False True False [''a'', ''b'', ''c'']
        [[''NOUN[1]''], [''NOUN[2]'', ''ALIAS[1_2]''], [''NOUN[3]'', ''EXAPPOS[1_3]'']]"
  have "map_sum id (\<lambda>_. ()) (scan_links ?st) = Inr ()"
    by code_simp
  then obtain mps aps st' where run: "scan_links ?st = Inr (mps, aps, st')"
    by (cases "scan_links ?st") auto
  have links: "parsed_links (concat (labels ?st))
                 = [(''ALIAS'', (1, 2)), (''EXAPPOS'', (1, 3))]"
    by code_simp
  have flags: "use_aliases ?st" "\<not> use_exappos ?st" "aliases ?st = []" "exappos_mentions ?st = []"
    by (simp_all add: loaded_def new_preprocessor_def)
  from candidate_lists_follow_flags [OF run] show ?thesis
    unfolding links
    by (simp add: run flags seconds_of_kind_def pairs_of_kind_def pairs_not_of_kind_def)
qed

section \<open>Span extraction: where a span ends\<close>








section \<open>The parenthesis repair reads one token past the fused span\<close>

text \<open>
  Claim C10. With appositive fusion on, when the fused text of the head has exactly
  one more opening than closing parenthesis, the source reads
  \<open>tokens[new_span_end + 1]\<close> with no test of the bound. In every state in
  which the fused span ends at the last token that index is the length of the token
  list, and the step raises \<open>IndexError\<close>: the repair is not total.
\<close>

theorem paren_repair_reads_past_end:
  assumes "use_appos st"
    and "py_index mention_pair 1 = Inr second"
    and "dict_get (mention_dict st) (hd mention_pair) = Inr head"
    and "dict_get (mention_dict st) (last mention_pair) = Inr tail"
    and "m_end tail = Some new_span_end"
    and "count_list (slice (tokens st) (m_start head) (new_span_end + 1)) ''(''
           = count_list (slice (tokens st) (m_start head) (new_span_end + 1)) '')'' + 1"
    and "new_span_end + 1 = length (tokens st)"
  shows "fuse_appositive mention_pair st = Inl IndexError"
  using assms by (simp add: fuse_appositive_def Let_def py_index_def)

theorem paren_repair_reads_past_end_witness:
  "map_sum id mention_dict
     (extract_mentions (loaded True False False False [''('', ''John'']
        [[''NOUN[1]''], [''NOUN[2]'', ''APPOS[1_2]'']]))
     = Inr [(1, \<lparr>m_start = 0, m_end = Some 0, m_text = Some [''(''], m_type = Some ''NOUN'',
                  m_label = None\<rparr>),
            (2, \<lparr>m_start = 1, m_end = Some 1, m_text = Some [''John''], m_type = Some ''NOUN'',
                  m_label = None\<rparr>)]
   \<and> fuse_appositive [1, 2]
        ((loaded True False False False [''('', ''John'']
            [[''NOUN[1]''], [''NOUN[2]'', ''APPOS[1_2]'']])
         \<lparr>mention_dict :=
            [(1, \<lparr>m_start = 0, m_end = Some 0, m_text = Some [''(''], m_type = Some ''NOUN'',
                  m_label = None\<rparr>),
             (2, \<lparr>m_start = 1, m_end = Some 1, m_text = Some [''John''], m_type = Some ''NOUN'',
                  m_label = None\<rparr>)]\<rparr>)
       = Inl IndexError
   \<and> convert (new_preprocessor True False False False)
        (tsv_block ''( John'' [tsv_line ''('' ''NOUN[1]'', tsv_line ''John'' ''NOUN[2]|APPOS[1_2]''])
       = Inl IndexError"
proof (intro conjI)
  let ?m1 = "\<lparr>m_start = 0, m_end = Some 0, m_text = Some [''(''], m_type = Some ''NOUN'',
                  m_label = None\<rparr>"
  let ?m2 = "\<lparr>m_start = 1, m_end = Some 1, m_text = Some [''John''], m_type = Some ''NOUN'',
                  m_label = None\<rparr>"
  let ?st = "(loaded True False False False [''('', ''John'']
            [[''NOUN[1]''], [''NOUN[2]'', ''APPOS[1_2]'']])\<lparr>mention_dict := [(1, ?m1), (2, ?m2)]\<rparr>"
  show "fuse_appositive [1, 2] ?st = Inl IndexError"
  proof (rule paren_repair_reads_past_end [where second = 2 and head = ?m1 and tail = ?m2
        and new_span_end = 1])
    show "use_appos ?st" by (simp add: loaded_def new_preprocessor_def)
    show "py_index [1, 2] 1 = Inr (2::int)" by (simp add: py_index_def)
    show "dict_get (mention_dict ?st) (hd [1, 2]) = Inr ?m1" by (simp add: dict_get_def)
    show "dict_get (mention_dict ?st) (last [1, 2]) = Inr ?m2" by (simp add: dict_get_def)
    show "m_end ?m2 = Some 1" by simp
    show "count_list (slice (tokens ?st) (m_start ?m1) (1 + 1)) ''(''
           = count_list (slice (tokens ?st) (m_start ?m1) (1 + 1)) '')'' + 1"
      by (simp add: loaded_def new_preprocessor_def slice_def)
    show "1 + 1 = length (tokens ?st)" by (simp add: loaded_def new_preprocessor_def)
  qed
qed code_simp+

section \<open>Spans of the written records\<close>

text \<open>
  What does hold of the written records, for every flag setting: whenever the
  conversion writes its records, every mention of every record has a recorded end
  and the end is an index into the tokens of the record; and when \<open>use_appos\<close>
  is off the start is not after the end.
\<close>

lemma emitted_spans_within_tokens:
  assumes "convert (new_preprocessor appos exappos als singletons) data = Inr records"
    and "r \<in> set records" and "m \<in> set (pd_corefs r)"
  shows "\<exists>e. m_end m = Some e \<and> e < length (pd_tokens r) \<and> (\<not> appos \<longrightarrow> m_start m \<le> e)"
proof -
  let ?st = "new_preprocessor appos exappos als singletons"
  from assms(1) obtain st' where
    run: "for_each process_paragraph (split_blank data) ([], ?st) = Inr (records, st')"
    by (auto simp: convert_def split: sum.splits)
  have "\<forall>r \<in> set records. spans_valid (use_appos ?st) r"
    using run by (rule convert_loop_facts) (simp_all add: new_preprocessor_def)
  then have "spans_valid appos r"
    using assms(2) by (simp add: new_preprocessor_def)
  then show ?thesis
    using assms(3) by (auto simp: spans_valid_def split: option.splits)
qed

text \<open>The example of the appositive docstring, with \<open>use_appos\<close> off.\<close>

lemma emitted_spans_example:
  "convert (new_preprocessor False False False False)
     (tsv_block ''Mas Ahmad umur 45 tahun Dia''
        [tsv_line ''Mas'' ''PROPER[1]'', tsv_line ''Ahmad'' ''PROPER[1]|APPOS[1_2]'',
         tsv_line ''umur'' ''NOUN[2]'', tsv_line ''45'' ''NOUN[2]'', tsv_line ''tahun'' ''NOUN[2]'',
         tsv_line ''Dia'' ''PRONOUN[3]|IDENT[1_3]''])
   = Inr [\<lparr>pd_text = ''Mas Ahmad umur 45 tahun Dia'',
           pd_tokens = [''Mas'', ''Ahmad'', ''umur'', ''45'', ''tahun'', ''Dia''],
           pd_corefs =
             [\<lparr>m_start = 0, m_end = Some 1, m_text = Some [''Mas'', ''Ahmad''],
                m_type = Some ''PROPER'', m_label = Some 0\<rparr>,
              \<lparr>m_start = 5, m_end = Some 5, m_text = Some [''Dia''],
                m_type = Some ''PRONOUN'', m_label = Some 0\<rparr>]\<rparr>]
   \<and> (\<exists>e. m_end \<lparr>m_start = 0, m_end = Some 1, m_text = Some [''Mas'', ''Ahmad''],
                m_type = Some ''PROPER'', m_label = Some 0\<rparr> = Some e
          \<and> e < length [''Mas'', ''Ahmad'', ''umur'', ''45'', ''tahun'', ''Dia'']
          \<and> m_start \<lparr>m_start = 0, m_end = Some 1, m_text = Some [''Mas'', ''Ahmad''],
                m_type = Some ''PROPER'', m_label = Some 0\<rparr> \<le> e)"
proof -
  let ?m = "\<lparr>m_start = 0, m_end = Some 1, m_text = Some [''Mas'', ''Ahmad''],
                m_type = Some ''PROPER'', m_label = Some 0\<rparr>"
  let ?r = "\<lparr>pd_text = ''Mas Ahmad umur 45 tahun Dia'',
           pd_tokens = [''Mas'', ''Ahmad'', ''umur'', ''45'', ''tahun'', ''Dia''],
           pd_corefs =
             [?m,
              \<lparr>m_start = 5, m_end = Some 5, m_text = Some [''Dia''],
                m_type = Some ''PRONOUN'', m_label = Some 0\<rparr>]\<rparr>"
  have run: "convert (new_preprocessor False False False False)
     (tsv_block ''Mas Ahmad umur 45 tahun Dia''
        [tsv_line ''Mas'' ''PROPER[1]'', tsv_line ''Ahmad'' ''PROPER[1]|APPOS[1_2]'',
         tsv_line ''umur'' ''NOUN[2]'', tsv_line ''45'' ''NOUN[2]'', tsv_line ''tahun'' ''NOUN[2]'',
         tsv_line ''Dia'' ''PRONOUN[3]|IDENT[1_3]'']) = Inr [?r]"
    by code_simp
  from emitted_spans_within_tokens [OF run, of ?r ?m]
  have "\<exists>e. m_end ?m = Some e \<and> e < length (pd_tokens ?r) \<and> m_start ?m \<le> e"
    by simp
  with run show ?thesis by simp
qed

section \<open>Which bare appositives stay\<close>



end
